theory Spec2Isabelle
  imports Main "HOL-Library.Sublist"
begin

section \<open>chrononoteai: the note pipeline of notes/notes.go\<close>

text \<open>
  The package \<^verbatim>\<open>notes\<close> reads a buffer of notes, each a YAML front matter between
  \<^verbatim>\<open>---\<close> delimiters followed by a body, checks every note and appends each one to
  the markdown file of its day. A Go string is a sequence of bytes and is modelled as a
  \<^typ>\<open>string\<close>. Paths are Unix paths (separator \<^verbatim>\<open>/\<close>). Log output is not
  modelled.
\<close>

subsection \<open>Errors\<close>

text \<open>
  The error values of the package: \<^verbatim>\<open>errors.New(msg)\<close>, the \<^verbatim>\<open>*time.ParseError\<close> of
  \<^verbatim>\<open>time.Parse\<close> (with its layout and the value that did not parse), an error of the
  YAML library and an error of the file system.
\<close>

datatype error =
    errors_New string
  | time_ParseError string string
  | yaml_Error string
  | fs_Error string

subsection \<open>Package strings\<close>

text \<open>\<^verbatim>\<open>strings.HasPrefix(s, prefix)\<close>.\<close>

definition strings_HasPrefix :: "string \<Rightarrow> string \<Rightarrow> bool" where
  "strings_HasPrefix s p = (take (length p) s = p)"

text \<open>
  \<^verbatim>\<open>strings.Split(s, sep)\<close> for a non-empty separator: the text is cut at every
  occurrence of \<^verbatim>\<open>sep\<close>, found from left to right, the next search starting after the
  previous occurrence. (With an empty separator Go explodes the text into its characters;
  the package only splits on \<^verbatim>\<open>---\<close>.)
\<close>

function strings_Split :: "string \<Rightarrow> string \<Rightarrow> string list" where
  "strings_Split [] sep = [[]]"
| "strings_Split (c # s) sep =
     (if sep = [] then map (\<lambda>x. [x]) (c # s)
      else if strings_HasPrefix (c # s) sep
      then [] # strings_Split (drop (length sep) (c # s)) sep
      else (case strings_Split s sep of
              x # xs \<Rightarrow> (c # x) # xs
            | [] \<Rightarrow> [[c]]))"
  by pat_completeness auto
termination
  by (relation "measure (\<lambda>(s, sep). length s)") auto

text \<open>
  \<^verbatim>\<open>unicode.IsSpace\<close> on the UTF-8 encoded text: \<open>space_width s\<close> is the number of
  bytes of the white space character that \<open>s\<close> starts with, and 0 when it starts with
  none. The white space characters are U+0009 to U+000D, U+0020, U+0085, U+00A0, U+1680,
  U+2000 to U+200A, U+2028, U+2029, U+202F, U+205F and U+3000.
\<close>

definition asciiSpace :: "char \<Rightarrow> bool" where
  "asciiSpace c =
     (c = CHR 0x09 \<or> c = CHR 0x0A \<or> c = CHR 0x0B \<or> c = CHR 0x0C \<or> c = CHR 0x0D \<or> c = CHR 0x20)"

fun space_width :: "string \<Rightarrow> nat" where
  "space_width [] = 0"
| "space_width [a] = (if asciiSpace a then 1 else 0)"
| "space_width [a, b] =
     (if asciiSpace a then 1
      else if a = CHR 0xC2 \<and> (b = CHR 0x85 \<or> b = CHR 0xA0) then 2 else 0)"
| "space_width (a # b # c # s) =
     (if asciiSpace a then 1
      else if a = CHR 0xC2 \<and> (b = CHR 0x85 \<or> b = CHR 0xA0) then 2
      else if a = CHR 0xE1 \<and> b = CHR 0x9A \<and> c = CHR 0x80 then 3
      else if a = CHR 0xE2 \<and> b = CHR 0x80 \<and>
              ((128 :: nat) \<le> of_char c \<and> (of_char c :: nat) \<le> 138 \<or>
               c = CHR 0xA8 \<or> c = CHR 0xA9 \<or> c = CHR 0xAF) then 3
      else if a = CHR 0xE2 \<and> b = CHR 0x81 \<and> c = CHR 0x9F then 3
      else if a = CHR 0xE3 \<and> b = CHR 0x80 \<and> c = CHR 0x80 then 3
      else 0)"

text \<open>
  The same for the last character of the text, read on the reversed text: the bytes of a
  multi-byte character come in reverse order.
\<close>

fun space_width_rev :: "string \<Rightarrow> nat" where
  "space_width_rev [] = 0"
| "space_width_rev [a] = (if asciiSpace a then 1 else 0)"
| "space_width_rev [a, b] =
     (if asciiSpace a then 1 else if space_width [b, a] = 2 then 2 else 0)"
| "space_width_rev (a # b # c # s) =
     (if asciiSpace a then 1
      else if space_width [b, a] = 2 then 2
      else if space_width [c, b, a] = 3 then 3
      else 0)"

function TrimLeftSpace :: "string \<Rightarrow> string" where
  "TrimLeftSpace s =
     (if space_width s = 0 then s else TrimLeftSpace (drop (space_width s) s))"
  by pat_completeness auto
termination
  apply (relation "measure length")
   apply simp
  subgoal for s by (cases s) auto
  done

function TrimLeftSpace_rev :: "string \<Rightarrow> string" where
  "TrimLeftSpace_rev s =
     (if space_width_rev s = 0 then s else TrimLeftSpace_rev (drop (space_width_rev s) s))"
  by pat_completeness auto
termination
  apply (relation "measure length")
   apply simp
  subgoal for s by (cases s) auto
  done

declare TrimLeftSpace.simps [simp del] TrimLeftSpace_rev.simps [simp del]

text \<open>
  \<^verbatim>\<open>strings.TrimSpace(s)\<close>: the leading white space is removed, then the trailing
  white space of what is left.
\<close>

definition strings_TrimSpace :: "string \<Rightarrow> string" where
  "strings_TrimSpace s = rev (TrimLeftSpace_rev (rev (TrimLeftSpace s)))"

text \<open>The text cut at every occurrence of one character.\<close>

fun split_char :: "char \<Rightarrow> string \<Rightarrow> string list" where
  "split_char d [] = [[]]"
| "split_char d (c # s) =
     (if c = d then [] # split_char d s
      else (case split_char d s of
              x # xs \<Rightarrow> (c # x) # xs
            | [] \<Rightarrow> [[c]]))"

text \<open>\<^verbatim>\<open>strings.Join(elems, sep)\<close>.\<close>

fun strings_Join :: "string list \<Rightarrow> string \<Rightarrow> string" where
  "strings_Join [] sep = []"
| "strings_Join [x] sep = x"
| "strings_Join (x # y # ys) sep = x @ sep @ strings_Join (y # ys) sep"

text \<open>\<^verbatim>\<open>strings.Contains(s, substr)\<close>.\<close>

fun strings_Contains :: "string \<Rightarrow> string \<Rightarrow> bool" where
  "strings_Contains [] sub = (sub = [])"
| "strings_Contains (c # s) sub = (strings_HasPrefix (c # s) sub \<or> strings_Contains s sub)"

subsection \<open>Package time: the layout 2006-01-02\<close>

text \<open>
  What the package uses of a \<^verbatim>\<open>time.Time\<close>: the calendar date. \<^verbatim>\<open>time.Parse\<close> is
  followed on the one layout the package parses, \<^verbatim>\<open>"2006-01-02"\<close>: a year of exactly
  four digits, a month and a day of exactly two digits (\<^verbatim>\<open>getnum\<close> with \<^verbatim>\<open>fixed\<close>),
  the month between 1 and 12, nothing after the day, and the day within the month.
\<close>

record Time =
  Year :: nat
  Month :: nat
  Day :: nat

definition layout_date :: string where
  "layout_date = ''2006-01-02''"

definition isDigit :: "string \<Rightarrow> nat \<Rightarrow> bool" where
  "isDigit s i = (i < length s \<and> (48 :: nat) \<le> of_char (s ! i) \<and> (of_char (s ! i) :: nat) \<le> 57)"

definition digit_val :: "char \<Rightarrow> nat" where
  "digit_val c = of_char c - 48"

definition getnum :: "string \<Rightarrow> bool \<Rightarrow> (nat \<times> string) option" where
  "getnum s fixed =
     (if \<not> isDigit s 0 then None
      else if \<not> isDigit s 1 then (if fixed then None else Some (digit_val (s ! 0), drop 1 s))
      else Some (digit_val (s ! 0) * 10 + digit_val (s ! 1), drop 2 s))"

text \<open>\<^verbatim>\<open>atoi\<close> on a text whose first character is a digit: every character is one.\<close>

definition atoi :: "string \<Rightarrow> nat option" where
  "atoi p =
     (if p \<noteq> [] \<and> list_all (\<lambda>c. (48 :: nat) \<le> of_char c \<and> (of_char c :: nat) \<le> 57) p
      then Some (foldl (\<lambda>n c. n * 10 + digit_val c) 0 p) else None)"

text \<open>\<^verbatim>\<open>skip(value, prefix)\<close> for the prefix \<^verbatim>\<open>-\<close> of the layout.\<close>

definition skip_dash :: "string \<Rightarrow> string option" where
  "skip_dash v = (case v of [] \<Rightarrow> None | c # r \<Rightarrow> if c = CHR ''-'' then Some r else None)"

definition isLeap :: "nat \<Rightarrow> bool" where
  "isLeap y = (y mod 4 = 0 \<and> (y mod 100 \<noteq> 0 \<or> y mod 400 = 0))"

definition daysIn :: "nat \<Rightarrow> nat \<Rightarrow> nat" where
  "daysIn m y =
     (if m = 2 then (if isLeap y then 29 else 28)
      else if m = 4 \<or> m = 6 \<or> m = 9 \<or> m = 11 then 30 else 31)"

definition time_Parse :: "string \<Rightarrow> error + Time" where
  "time_Parse v =
     (let bad = Inl (time_ParseError layout_date v) in
      if length v < 4 \<or> \<not> isDigit v 0 then bad
      else case atoi (take 4 v) of
        None \<Rightarrow> bad
      | Some y \<Rightarrow>
         (case skip_dash (drop 4 v) of
            None \<Rightarrow> bad
          | Some v1 \<Rightarrow>
             (case getnum v1 True of
                None \<Rightarrow> bad
              | Some (m, v2) \<Rightarrow>
                 if m \<le> 0 \<or> 12 < m then bad
                 else (case skip_dash v2 of
                    None \<Rightarrow> bad
                  | Some v3 \<Rightarrow>
                     (case getnum v3 True of
                        None \<Rightarrow> bad
                      | Some (d, v4) \<Rightarrow>
                         if v4 \<noteq> [] then bad
                         else if d < 1 \<or> daysIn m y < d then bad
                         else Inr \<lparr>Year = y, Month = m, Day = d\<rparr>)))))"

text \<open>
  A number in decimal, and padded with zeros to a width, as \<^verbatim>\<open>appendInt\<close> of package
  time and the verb \<^verbatim>\<open>%02d\<close> of package fmt write it.
\<close>

fun itoa :: "nat \<Rightarrow> string" where
  "itoa n = (if n < 10 then [char_of (48 + n)] else itoa (n div 10) @ [char_of (48 + n mod 10)])"

declare itoa.simps [simp del]

definition zero_pad :: "nat \<Rightarrow> nat \<Rightarrow> string" where
  "zero_pad w n = replicate (w - length (itoa n)) (CHR ''0'') @ itoa n"

text \<open>\<^verbatim>\<open>t.Format("2006/01")\<close>.\<close>

definition Format_year_month :: "Time \<Rightarrow> string" where
  "Format_year_month t = zero_pad 4 (Year t) @ ''/'' @ zero_pad 2 (Month t)"

subsection \<open>Package path/filepath\<close>

text \<open>
  \<^verbatim>\<open>filepath.Clean\<close>: the path is read element by element; an empty element and
  \<^verbatim>\<open>.\<close> are dropped, \<^verbatim>\<open>..\<close> removes the element before it when there is one, is
  dropped at the root and is kept at the start of a relative path. The elements written
  so far are held last first.
\<close>

definition clean_elem :: "bool \<Rightarrow> string list \<Rightarrow> string \<Rightarrow> string list" where
  "clean_elem rooted out e =
     (if e = [] \<or> e = ''.'' then out
      else if e = ''..'' then
        (case out of
           [] \<Rightarrow> if rooted then [] else [''..'']
         | x # xs \<Rightarrow> if x = ''..'' \<and> \<not> rooted then ''..'' # out else xs)
      else e # out)"

definition filepath_Clean :: "string \<Rightarrow> string" where
  "filepath_Clean path =
     (if path = [] then ''.''
      else let rooted = (hd path = CHR ''/'');
               out = foldl (clean_elem rooted) [] (split_char (CHR ''/'') path);
               s = (if rooted then ''/'' else []) @ strings_Join (rev out) ''/''
           in if s = [] then ''.'' else s)"

text \<open>\<^verbatim>\<open>filepath.Join\<close>: the elements from the first non-empty one on, joined and cleaned.\<close>

fun filepath_Join :: "string list \<Rightarrow> string" where
  "filepath_Join [] = []"
| "filepath_Join (e # es) =
     (if e \<noteq> [] then filepath_Clean (strings_Join (e # es) ''/'') else filepath_Join es)"

text \<open>\<^verbatim>\<open>filepath.Dir\<close>: the path up to its last separator, cleaned.\<close>

definition filepath_Dir :: "string \<Rightarrow> string" where
  "filepath_Dir path = filepath_Clean (rev (dropWhile (\<lambda>c. c \<noteq> CHR ''/'') (rev path)))"

definition os_ModePerm :: nat where
  "os_ModePerm = 511"

subsection \<open>Package regexp: the replacement template\<close>

text \<open>
  \<^verbatim>\<open>ReplaceAllString\<close> expands its replacement as \<^verbatim>\<open>Expand\<close> does: \<^verbatim>\<open>$$\<close> is a
  dollar sign, \<^verbatim>\<open>$name\<close> and \<^verbatim>\<open>${name}\<close> are the text of a group, and a dollar sign
  followed by no name stands for itself. The expression of the package has no group of
  its own, so the name \<^verbatim>\<open>0\<close> is the whole match and any other name is empty. A name is
  made of letters, digits and underscores, read here over ASCII (Go also takes the
  letters and digits beyond ASCII).
\<close>

definition is_name_char :: "char \<Rightarrow> bool" where
  "is_name_char c =
     (let n = (of_char c :: nat)
      in 48 \<le> n \<and> n \<le> 57 \<or> 65 \<le> n \<and> n \<le> 90 \<or> 97 \<le> n \<and> n \<le> 122 \<or> n = 95)"

text \<open>\<^verbatim>\<open>extract\<close>: the name at the start of the template and what follows it.\<close>

definition extract_name :: "string \<Rightarrow> (string \<times> string) option" where
  "extract_name str =
     (if str = [] then None
      else let brace = (hd str = CHR ''{'');
               str1 = (if brace then tl str else str);
               name = takeWhile is_name_char str1;
               i = length name
           in if i = 0 then None
              else if brace then
                (if length str1 \<le> i \<or> str1 ! i \<noteq> CHR ''}'' then None
                 else Some (name, drop (i + 1) str1))
              else Some (name, drop i str1))"

function expand :: "string \<Rightarrow> string \<Rightarrow> string" where
  "expand [] m = []"
| "expand (c # t) m =
     (if c \<noteq> CHR ''$'' then c # expand t m
      else if t \<noteq> [] \<and> hd t = CHR ''$'' then CHR ''$'' # expand (tl t) m
      else (case extract_name t of
              None \<Rightarrow> CHR ''$'' # expand t m
            | Some (name, rest) \<Rightarrow> (if name = ''0'' then m else []) @ expand rest m))"
  by pat_completeness auto
termination
  apply (relation "measure (\<lambda>(t, m). length t)")
     apply simp
    apply simp
   apply (simp add: neq_Nil_conv)
   apply (auto simp: extract_name_def Let_def split: if_splits)
  done

subsection \<open>The package notes\<close>

record Note =
  Title :: string
  Date :: string
  Tags :: "string list"
  Content :: string

record FrontMatter =
  FM_Title :: string
  FM_Date :: string
  FM_Tags :: "string list"

text \<open>The zero value of \<^verbatim>\<open>var note Note\<close>.\<close>

definition Note_zero :: Note where
  "Note_zero = \<lparr>Title = [], Date = [], Tags = [], Content = []\<rparr>"

text \<open>
  The interface \<^verbatim>\<open>FileSystem\<close>. A file system has a state of some type \<^typ>\<open>'s\<close>; a
  call returns its error, if any, and the state it leaves.
\<close>

record 's FileSystem =
  ReadFile :: "string \<Rightarrow> 's \<Rightarrow> (error + string) \<times> 's"
  WriteFile :: "string \<Rightarrow> string \<Rightarrow> nat \<Rightarrow> 's \<Rightarrow> error option \<times> 's"
  AppendToFile :: "string \<Rightarrow> string \<Rightarrow> 's \<Rightarrow> error option \<times> 's"
  MkdirAll :: "string \<Rightarrow> nat \<Rightarrow> 's \<Rightarrow> error option \<times> 's"

text \<open>The calls that \<^verbatim>\<open>ProcessNotes\<close> issues, recorded in the order they are made.\<close>

datatype fs_call =
    Call_MkdirAll string nat
  | Call_AppendToFile string string

text \<open>
  \<^verbatim>\<open>parseNotes\<close>. The decoder \<^verbatim>\<open>yaml.Unmarshal\<close> belongs to the library
  gopkg.in/yaml.v3, which is not part of the repository: it is the parameter \<open>unm\<close>,
  called with the metadata and the note to fill. The loop runs over the odd indices of
  the entries.
\<close>

function parseLoop ::
  "(string \<Rightarrow> Note \<Rightarrow> error + Note) \<Rightarrow> string list \<Rightarrow> nat \<Rightarrow> Note list \<Rightarrow> error + Note list"
where
  "parseLoop unm entries i notes =
     (if i < length entries then
        (let metadata = entries ! i;
             content = (if i + 1 < length entries then strings_TrimSpace (entries ! (i + 1))
                        else [])
         in if strings_TrimSpace metadata = [] \<and> content = []
            then parseLoop unm entries (i + 2) notes
            else (case unm metadata Note_zero of
                    Inl err \<Rightarrow> Inl err
                  | Inr note \<Rightarrow>
                      parseLoop unm entries (i + 2) (notes @ [note\<lparr>Content := content\<rparr>])))
      else Inr notes)"
  by pat_completeness auto
termination
  by (relation "measure (\<lambda>(unm, entries, i, notes). length entries - i)") auto

declare parseLoop.simps [simp del]

definition parseNotes :: "(string \<Rightarrow> Note \<Rightarrow> error + Note) \<Rightarrow> string \<Rightarrow> error + Note list" where
  "parseNotes unm data = parseLoop unm (strings_Split data ''---'') 1 []"

text \<open>\<^verbatim>\<open>validateNote\<close>; \<open>None\<close> is the \<^verbatim>\<open>nil\<close> error.\<close>

definition validateNote :: "Note \<Rightarrow> error option" where
  "validateNote note =
     (if Title note = [] then Some (errors_New ''missing title'')
      else if Date note = [] then Some (errors_New ''missing date'')
      else (case time_Parse (Date note) of
              Inl err \<Rightarrow> Some err
            | Inr t \<Rightarrow> None))"

text \<open>\<^verbatim>\<open>buildMarkdownPath\<close>.\<close>

definition buildMarkdownPath :: "Note \<Rightarrow> string \<Rightarrow> error + string" where
  "buildMarkdownPath note baseDir =
     (case time_Parse (Date note) of
        Inl err \<Rightarrow> Inl err
      | Inr noteDate \<Rightarrow>
          (let datePath = filepath_Join [baseDir, Format_year_month noteDate];
               fileName = zero_pad 2 (Day noteDate) @ ''.md''
           in Inr (filepath_Join [datePath, fileName])))"

text \<open>
  \<^verbatim>\<open>removeQuotesFromDateField\<close>: the expression \<^verbatim>\<open>(?m)^date:.*$\<close> matches every whole
  line that starts with \<^verbatim>\<open>date:\<close> (the dot does not match a line feed), and each match
  is replaced by the expanded template.
\<close>

definition removeQuotesFromDateField :: "string \<Rightarrow> string \<Rightarrow> string" where
  "removeQuotesFromDateField yamlContent dateValue =
     (let unquotedDate = ''date: '' @ dateValue
      in strings_Join
           (map (\<lambda>l. if strings_HasPrefix l ''date:'' then expand unquotedDate l else l)
                (split_char (CHR 0x0A) yamlContent))
           ''\<newline>'')"

text \<open>
  \<^verbatim>\<open>formatNoteContent\<close>. The encoder \<^verbatim>\<open>yaml.Marshal\<close> of the library is the parameter
  \<open>mar\<close>.
\<close>

definition formatNoteContent :: "(FrontMatter \<Rightarrow> error + string) \<Rightarrow> Note \<Rightarrow> error + string" where
  "formatNoteContent mar note =
     (let frontMatter = \<lparr>FM_Title = Title note, FM_Date = Date note, FM_Tags = Tags note\<rparr>
      in case mar frontMatter of
           Inl err \<Rightarrow> Inl err
         | Inr yamlFrontMatter0 \<Rightarrow>
             (let yamlFrontMatter = removeQuotesFromDateField yamlFrontMatter0 (Date note)
              in Inr (''---\<newline>'' @ yamlFrontMatter @ ''---\<newline>'' @ Content note @ ''\<newline>\<newline>'')))"

text \<open>
  \<^verbatim>\<open>ProcessNotes\<close>: the first loop validates every note, the second one writes them. The
  result is the error returned, the state the file system is left in, and the calls
  made on it.
\<close>

fun validateLoop :: "Note list \<Rightarrow> error option" where
  "validateLoop [] = None"
| "validateLoop (note # notes) =
     (case validateNote note of
        Some err \<Rightarrow> Some err
      | None \<Rightarrow> validateLoop notes)"

fun writeLoop ::
  "(FrontMatter \<Rightarrow> error + string) \<Rightarrow> string \<Rightarrow> 's FileSystem \<Rightarrow> Note list \<Rightarrow> 's
     \<Rightarrow> error option \<times> 's \<times> fs_call list"
where
  "writeLoop mar markdownDir fs [] st = (None, st, [])"
| "writeLoop mar markdownDir fs (note # notes) st =
     (case buildMarkdownPath note markdownDir of
        Inl err \<Rightarrow> (Some err, st, [])
      | Inr filePath \<Rightarrow>
          (case MkdirAll fs (filepath_Dir filePath) os_ModePerm st of
             (Some err, st1) \<Rightarrow> (Some err, st1, [Call_MkdirAll (filepath_Dir filePath) os_ModePerm])
           | (None, st1) \<Rightarrow>
               (case formatNoteContent mar note of
                  Inl err \<Rightarrow> (Some err, st1, [Call_MkdirAll (filepath_Dir filePath) os_ModePerm])
                | Inr fullNote \<Rightarrow>
                    (case AppendToFile fs filePath fullNote st1 of
                       (Some err, st2) \<Rightarrow>
                         (Some err, st2,
                          [Call_MkdirAll (filepath_Dir filePath) os_ModePerm,
                           Call_AppendToFile filePath fullNote])
                     | (None, st2) \<Rightarrow>
                         (case writeLoop mar markdownDir fs notes st2 of
                            (r, st3, calls) \<Rightarrow>
                              (r, st3,
                               Call_MkdirAll (filepath_Dir filePath) os_ModePerm
                                 # Call_AppendToFile filePath fullNote # calls))))))"

definition ProcessNotes ::
  "(string \<Rightarrow> Note \<Rightarrow> error + Note) \<Rightarrow> (FrontMatter \<Rightarrow> error + string) \<Rightarrow> string \<Rightarrow> string
     \<Rightarrow> 's FileSystem \<Rightarrow> 's \<Rightarrow> error option \<times> 's \<times> fs_call list"
where
  "ProcessNotes unm mar data markdownDir fs st =
     (case parseNotes unm data of
        Inl err \<Rightarrow> (Some err, st, [])
      | Inr notes \<Rightarrow>
          (case validateLoop notes of
             Some err \<Rightarrow> (Some err, st, [])
           | None \<Rightarrow> writeLoop mar markdownDir fs notes st))"

subsection \<open>The file system of the tests\<close>

text \<open>
  \<^verbatim>\<open>MockFileSystem\<close> of the package's tests: the files and the directories are kept in
  two maps, and no call fails.
\<close>

record MockFileSystem =
  Files :: "string \<rightharpoonup> string"
  Dirs :: "string \<rightharpoonup> bool"

definition NewMockFileSystem :: MockFileSystem where
  "NewMockFileSystem = \<lparr>Files = Map.empty, Dirs = Map.empty\<rparr>"

definition os_ErrNotExist :: error where
  "os_ErrNotExist = errors_New ''file does not exist''"

definition Mock_ReadFile :: "string \<Rightarrow> MockFileSystem \<Rightarrow> (error + string) \<times> MockFileSystem" where
  "Mock_ReadFile path fs =
     (case Files fs path of Some data \<Rightarrow> (Inr data, fs) | None \<Rightarrow> (Inl os_ErrNotExist, fs))"

definition Mock_WriteFile ::
  "string \<Rightarrow> string \<Rightarrow> nat \<Rightarrow> MockFileSystem \<Rightarrow> error option \<times> MockFileSystem" where
  "Mock_WriteFile path data perm fs = (None, fs\<lparr>Files := (Files fs)(path \<mapsto> data)\<rparr>)"

definition Mock_AppendToFile ::
  "string \<Rightarrow> string \<Rightarrow> MockFileSystem \<Rightarrow> error option \<times> MockFileSystem" where
  "Mock_AppendToFile path data fs =
     (None, fs\<lparr>Files := (Files fs)(path \<mapsto> (case Files fs path of None \<Rightarrow> [] | Some old \<Rightarrow> old) @ data)\<rparr>)"

definition Mock_MkdirAll :: "string \<Rightarrow> nat \<Rightarrow> MockFileSystem \<Rightarrow> error option \<times> MockFileSystem" where
  "Mock_MkdirAll path perm fs = (None, fs\<lparr>Dirs := (Dirs fs)(path \<mapsto> True)\<rparr>)"

definition MockFS :: "MockFileSystem FileSystem" where
  "MockFS = \<lparr>ReadFile = Mock_ReadFile, WriteFile = Mock_WriteFile,
             AppendToFile = Mock_AppendToFile, MkdirAll = Mock_MkdirAll\<rparr>"

subsection \<open>The YAML library on flat front matter\<close>

text \<open>
  The general results below hold for every decoder and every encoder. The examples need
  a concrete one. What follows is gopkg.in/yaml.v3 on the front matter of the README and
  of the package's tests, and on nothing more.

  The encoder writes the three fields of a \<^verbatim>\<open>FrontMatter\<close> in their order, the tags as
  a list of dashes indented by four spaces (the test
  \<^verbatim>\<open>TestFormatNoteContent_PostProcessing\<close> expects them so), and a list without tags as
  \<^verbatim>\<open>[]\<close>. How a text is written as a scalar is the parameter \<open>sc\<close>.
\<close>

definition yaml_Marshal :: "(string \<Rightarrow> string) \<Rightarrow> FrontMatter \<Rightarrow> error + string" where
  "yaml_Marshal sc fm =
     Inr (''title: '' @ sc (FM_Title fm) @ ''\<newline>'' @
          ''date: '' @ sc (FM_Date fm) @ ''\<newline>'' @
          (if FM_Tags fm = [] then ''tags: []\<newline>''
           else ''tags:\<newline>'' @ concat (map (\<lambda>t. ''    - '' @ sc t @ ''\<newline>'') (FM_Tags fm))))"

text \<open>
  The scalars of the examples: a text that reads as a date or as null (\<^verbatim>\<open>~\<close>,
  \<^verbatim>\<open>null\<close>) and the empty text are put between double quotes, a word or a phrase is
  written as it is. (The rules of the library for texts that read as numbers or truth
  values, and for texts with indicator characters or line feeds, are not modelled; no
  general result depends on \<open>yaml_scalar\<close>.)
\<close>

definition yaml_scalar :: "string \<Rightarrow> string" where
  "yaml_scalar s =
     (if s = [] \<or> s = ''~'' \<or> s = ''null'' \<or> s = ''Null'' \<or> s = ''NULL'' \<or>
         (case time_Parse s of Inr t \<Rightarrow> True | Inl e \<Rightarrow> False)
      then [CHR 0x22] @ s @ [CHR 0x22] else s)"

text \<open>
  The decoder on a block of lines \<^verbatim>\<open>title: v\<close>, \<^verbatim>\<open>date: v\<close>, \<^verbatim>\<open>tags:\<close> followed
  by items \<^verbatim>\<open>- v\<close> of one indentation, or \<^verbatim>\<open>tags: []\<close>, where each \<^verbatim>\<open>v\<close> is a plain
  scalar of letters, digits, blanks and a few signs that starts with a letter or a
  digit, or such a text (or \<^verbatim>\<open>~\<close>) between double quotes. A value that is missing,
  \<^verbatim>\<open>~\<close> or \<^verbatim>\<open>null\<close> without quotes is null and leaves the field as it is; a key
  given twice is an error. Such blocks are read as the library reads them. Every other
  block is reported as an error here, although the library reads many of them.
\<close>

datatype yaml_value = Unread | Null | Scalar string

definition trim_blanks :: "string \<Rightarrow> string" where
  "trim_blanks s =
     rev (dropWhile (\<lambda>c. c = CHR '' '') (rev (dropWhile (\<lambda>c. c = CHR '' '') s)))"

definition is_alnum :: "char \<Rightarrow> bool" where
  "is_alnum c =
     (let n = (of_char c :: nat)
      in 48 \<le> n \<and> n \<le> 57 \<or> 65 \<le> n \<and> n \<le> 90 \<or> 97 \<le> n \<and> n \<le> 122)"

definition plain_char :: "char \<Rightarrow> bool" where
  "plain_char c =
     (is_alnum c \<or> c = CHR '' '' \<or> c = CHR ''-'' \<or> c = CHR ''_'' \<or> c = CHR ''.'' \<or>
      c = CHR ''$'' \<or> c = CHR ''/'')"

definition quoted_char :: "char \<Rightarrow> bool" where
  "quoted_char c = (plain_char c \<or> c = CHR ''~'')"

definition scalar_of :: "string \<Rightarrow> yaml_value" where
  "scalar_of v =
     (let t = trim_blanks v
      in if t = [] \<or> t = ''~'' \<or> t = ''null'' \<or> t = ''Null'' \<or> t = ''NULL'' then Null
         else if is_alnum (hd t) \<and> list_all plain_char t then Scalar t
         else if 2 \<le> length t \<and> hd t = CHR 0x22 \<and> last t = CHR 0x22 \<and>
                 list_all quoted_char (butlast (tl t))
         then Scalar (butlast (tl t))
         else Unread)"

definition key_line :: "string \<Rightarrow> string \<Rightarrow> bool" where
  "key_line key l =
     (strings_HasPrefix l (key @ '':'') \<and>
      (length l = length key + 1 \<or> l ! (length key + 1) = CHR '' ''))"

definition decode_error :: error where
  "decode_error = yaml_Error ''cannot unmarshal''"

text \<open>
  The state of the decoder: the note, the keys seen, whether the items of \<^verbatim>\<open>tags\<close>
  are being read, and their indentation once the first item is read.
\<close>

fun decode_lines ::
  "string list \<Rightarrow> Note \<Rightarrow> string list \<Rightarrow> bool \<Rightarrow> nat option \<Rightarrow> error + Note"
where
  "decode_lines [] note seen in_tags ind = Inr note"
| "decode_lines (l # ls) note seen in_tags ind =
     (if trim_blanks l = [] then decode_lines ls note seen in_tags ind
      else if key_line ''title'' l then
        (if ''title'' \<in> set seen then Inl decode_error
         else case scalar_of (drop 6 l) of
                Unread \<Rightarrow> Inl decode_error
              | Null \<Rightarrow> decode_lines ls note (''title'' # seen) False None
              | Scalar v \<Rightarrow> decode_lines ls (note\<lparr>Title := v\<rparr>) (''title'' # seen) False None)
      else if key_line ''date'' l then
        (if ''date'' \<in> set seen then Inl decode_error
         else case scalar_of (drop 5 l) of
                Unread \<Rightarrow> Inl decode_error
              | Null \<Rightarrow> decode_lines ls note (''date'' # seen) False None
              | Scalar v \<Rightarrow> decode_lines ls (note\<lparr>Date := v\<rparr>) (''date'' # seen) False None)
      else if key_line ''tags'' l then
        (if ''tags'' \<in> set seen then Inl decode_error
         else if trim_blanks (drop 5 l) = [] then decode_lines ls note (''tags'' # seen) True None
         else if trim_blanks (drop 5 l) = ''[]''
         then decode_lines ls (note\<lparr>Tags := []\<rparr>) (''tags'' # seen) False None
         else Inl decode_error)
      else if in_tags then
        (let n = length (takeWhile (\<lambda>c. c = CHR '' '') l);
             item = drop n l
         in if strings_HasPrefix item ''- '' \<and> (ind = None \<or> ind = Some n) then
              (case scalar_of (drop 2 item) of
                 Scalar v \<Rightarrow> decode_lines ls (note\<lparr>Tags := Tags note @ [v]\<rparr>) seen True (Some n)
               | Null \<Rightarrow> Inl decode_error
               | Unread \<Rightarrow> Inl decode_error)
            else Inl decode_error)
      else Inl decode_error)"

definition yaml_Unmarshal :: "string \<Rightarrow> Note \<Rightarrow> error + Note" where
  "yaml_Unmarshal text note = decode_lines (split_char (CHR 0x0A) text) note [] False None"

section \<open>The specification's notions\<close>

text \<open>
  The strict calendar format \<^verbatim>\<open>YYYY-MM-DD\<close> in the specification's words: four digits,
  a dash, two digits, a dash, two digits, the month between 1 and 12 and the day within
  the month of that year.
\<close>

definition is_digit_char :: "char \<Rightarrow> bool" where
  "is_digit_char c = ((48 :: nat) \<le> of_char c \<and> (of_char c :: nat) \<le> 57)"

definition decimal :: "string \<Rightarrow> nat" where
  "decimal s = foldl (\<lambda>n c. 10 * n + (of_char c - 48)) 0 s"

definition days_in_month :: "nat \<Rightarrow> nat \<Rightarrow> nat" where
  "days_in_month y m =
     (if m = 2 then (if y mod 400 = 0 \<or> (y mod 4 = 0 \<and> y mod 100 \<noteq> 0) then 29 else 28)
      else if m = 4 \<or> m = 6 \<or> m = 9 \<or> m = 11 then 30 else 31)"

definition strict_date :: "string \<Rightarrow> bool" where
  "strict_date s =
     (case s of
        [y1, y2, y3, y4, h1, m1, m2, h2, d1, d2] \<Rightarrow>
          list_all is_digit_char [y1, y2, y3, y4, m1, m2, d1, d2] \<and>
          h1 = CHR ''-'' \<and> h2 = CHR ''-'' \<and>
          1 \<le> decimal [m1, m2] \<and> decimal [m1, m2] \<le> 12 \<and>
          1 \<le> decimal [d1, d2] \<and>
          decimal [d1, d2] \<le> days_in_month (decimal [y1, y2, y3, y4]) (decimal [m1, m2])
      | _ \<Rightarrow> False)"

text \<open>
  The splitter in the specification's words: segment 0 is discarded, the segments after
  it are paired as metadata and body (a missing body is the empty text, a body is
  trimmed), and a pair whose trimmed metadata and body are both empty is dropped. The
  kept pairs are decoded in their order; the first decoding error is the result.
\<close>

fun pairs_of :: "string list \<Rightarrow> (string \<times> string) list" where
  "pairs_of [] = []"
| "pairs_of [m] = [(m, [])]"
| "pairs_of (m # b # rest) = (m, strings_TrimSpace b) # pairs_of rest"

definition empty_pair :: "string \<times> string \<Rightarrow> bool" where
  "empty_pair p = (strings_TrimSpace (fst p) = [] \<and> snd p = [])"

definition kept_pairs :: "string \<Rightarrow> (string \<times> string) list" where
  "kept_pairs data =
     filter (\<lambda>p. \<not> empty_pair p) (pairs_of (tl (strings_Split data ''---'')))"

fun decode_pairs ::
  "(string \<Rightarrow> Note \<Rightarrow> error + Note) \<Rightarrow> (string \<times> string) list \<Rightarrow> error + Note list" where
  "decode_pairs unm [] = Inr []"
| "decode_pairs unm (p # ps) =
     (case unm (fst p) Note_zero of
        Inl e \<Rightarrow> Inl e
      | Inr n \<Rightarrow>
          (case decode_pairs unm ps of
             Inl e \<Rightarrow> Inl e
           | Inr ns \<Rightarrow> Inr (n\<lparr>Content := snd p\<rparr> # ns)))"


fun fs_step :: "'s FileSystem \<Rightarrow> fs_call \<Rightarrow> 's \<Rightarrow> error option \<times> 's" where
  "fs_step fs (Call_MkdirAll p perm) st = MkdirAll fs p perm st"
| "fs_step fs (Call_AppendToFile p d) st = AppendToFile fs p d st"

fun replay :: "'s FileSystem \<Rightarrow> fs_call list \<Rightarrow> 's \<Rightarrow> error option \<times> 's" where
  "replay fs [] st = (None, st)"
| "replay fs (c # cs) st =
     (case fs_step fs c st of
        (Some e, st1) \<Rightarrow> (Some e, st1)
      | (None, st1) \<Rightarrow> replay fs cs st1)"

definition note_calls :: "(FrontMatter \<Rightarrow> error + string) \<Rightarrow> string \<Rightarrow> Note \<Rightarrow> fs_call list" where
  "note_calls mar dir n =
     (case buildMarkdownPath n dir of
        Inl e \<Rightarrow> []
      | Inr p \<Rightarrow>
          (case formatNoteContent mar n of
             Inl e \<Rightarrow> []
           | Inr t \<Rightarrow> [Call_MkdirAll (filepath_Dir p) os_ModePerm, Call_AppendToFile p t]))"

definition planned_calls ::
  "(FrontMatter \<Rightarrow> error + string) \<Rightarrow> string \<Rightarrow> Note list \<Rightarrow> fs_call list" where
  "planned_calls mar dir ns = concat (map (note_calls mar dir) ns)"

text \<open>
  A file system for the examples: the test double, except that appending to one path
  fails and leaves the state as it is.
\<close>

definition FailingFS :: "string \<Rightarrow> error \<Rightarrow> MockFileSystem FileSystem" where
  "FailingFS path err =
     MockFS\<lparr>AppendToFile :=
       (\<lambda>p d s. if p = path then (Some err, s) else Mock_AppendToFile p d s)\<rparr>"


text \<open>The lines that the encoder writes for the tags.\<close>

definition tags_block :: "(string \<Rightarrow> string) \<Rightarrow> string list \<Rightarrow> string" where
  "tags_block sc tags =
     (if tags = [] then ''tags: []\<newline>''
      else ''tags:\<newline>'' @ concat (map (\<lambda>t. ''    - '' @ sc t @ ''\<newline>'') tags))"

text \<open>
  An ordinary path element is a name: not empty, not \<^verbatim>\<open>.\<close> or \<^verbatim>\<open>..\<close>, without a
  separator. An ordinary path is made of ordinary elements separated by single
  separators, and may start with one separator.
\<close>

definition ordinary_elem :: "string \<Rightarrow> bool" where
  "ordinary_elem e = (e \<noteq> [] \<and> e \<noteq> ''.'' \<and> e \<noteq> ''..'' \<and> CHR ''/'' \<notin> set e)"

definition ordinary_path :: "string \<Rightarrow> bool" where
  "ordinary_path p =
     (case split_char (CHR ''/'') p of
        [] \<Rightarrow> False
      | e # rest \<Rightarrow>
          if e = [] then rest \<noteq> [] \<and> list_all ordinary_elem rest
          else list_all ordinary_elem (e # rest))"

text \<open>
  The shape of the elements that \<^verbatim>\<open>Clean\<close> has written so far (last first): names,
  above \<^verbatim>\<open>..\<close> elements at the start of a relative path only. \<open>render\<close> is the
  path they stand for.
\<close>

fun wf_out :: "bool \<Rightarrow> string list \<Rightarrow> bool" where
  "wf_out r [] = True"
| "wf_out r (x # xs) =
     (if x = ''..'' then \<not> r \<and> list_all (\<lambda>e. e = ''..'') xs
      else ordinary_elem x \<and> wf_out r xs)"

definition render :: "bool \<Rightarrow> string list \<Rightarrow> string" where
  "render r out = (if r then ''/'' else []) @ strings_Join (rev out) ''/''"



section \<open>Properties\<close>

subsection \<open>Dates\<close>

lemma getnum_length: "getnum s b = Some (n, r) \<Longrightarrow> b \<Longrightarrow> length s = length r + 2"
  by (auto simp: getnum_def isDigit_def split: if_splits)

lemma skip_dash_length: "skip_dash v = Some r \<Longrightarrow> v = CHR ''-'' # r"
  by (auto simp: skip_dash_def split: list.splits if_splits)

lemma time_Parse_length: "time_Parse s = Inr t \<Longrightarrow> length s = 10"
proof -
  assume a: "time_Parse s = Inr t"
  from a have l4: "4 \<le> length s"
    by (simp add: time_Parse_def Let_def split: if_splits)
  from a obtain y v1 m v2 v3 d where
    s1: "skip_dash (drop 4 s) = Some v1" and g1: "getnum v1 True = Some (m, v2)"
    and s2: "skip_dash v2 = Some v3" and g2: "getnum v3 True = Some (d, [])"
    by (simp add: time_Parse_def Let_def split: if_splits option.splits prod.splits)
  have "length v3 = 2" using getnum_length[OF g2] by simp
  moreover have "length v2 = Suc (length v3)" using skip_dash_length[OF s2] by simp
  moreover have "length v1 = length v2 + 2" using getnum_length[OF g1] by simp
  moreover have "length (drop 4 s) = Suc (length v1)" using skip_dash_length[OF s1] by simp
  ultimately show ?thesis using l4 by simp
qed

lemma getnum_two:
  "getnum (a # b # r) True =
     (if is_digit_char a \<and> is_digit_char b then Some (decimal [a, b], r) else None)"
  by (auto simp: getnum_def isDigit_def is_digit_char_def decimal_def digit_val_def)

lemma atoi_four:
  "atoi [a, b, c, d] =
     (if is_digit_char a \<and> is_digit_char b \<and> is_digit_char c \<and> is_digit_char d
      then Some (decimal [a, b, c, d]) else None)"
  by (simp add: atoi_def is_digit_char_def decimal_def digit_val_def mult.commute)

lemma daysIn_eq: "daysIn m y = days_in_month y m"
  by (auto simp: daysIn_def days_in_month_def isLeap_def)

lemma time_Parse_ten:
  "time_Parse [y1, y2, y3, y4, h1, m1, m2, h2, d1, d2] =
     (if strict_date [y1, y2, y3, y4, h1, m1, m2, h2, d1, d2]
      then Inr \<lparr>Year = decimal [y1, y2, y3, y4], Month = decimal [m1, m2], Day = decimal [d1, d2]\<rparr>
      else Inl (time_ParseError layout_date [y1, y2, y3, y4, h1, m1, m2, h2, d1, d2]))"
proof -
  have d0: "isDigit [y1, y2, y3, y4, h1, m1, m2, h2, d1, d2] 0 = is_digit_char y1"
    by (simp add: isDigit_def is_digit_char_def)
  show ?thesis
    unfolding time_Parse_def strict_date_def
    by (simp add: d0 atoi_four getnum_two skip_dash_def daysIn_eq Let_def)
qed

lemma length_ten: "length s = 10 \<Longrightarrow> \<exists>a b c d e f g h i j. s = [a, b, c, d, e, f, g, h, i, j]"
  by (auto simp: length_Suc_conv eval_nat_numeral)

lemma strict_date_length: "strict_date s \<Longrightarrow> length s = 10"
  by (auto simp: strict_date_def split: list.splits)

lemma time_Parse_iff: "(\<exists>t. time_Parse s = Inr t) = strict_date s"
proof (cases "length s = 10")
  case True
  then obtain a b c d e f g h i j where "s = [a, b, c, d, e, f, g, h, i, j]"
    using length_ten[OF True] by blast
  then show ?thesis by (simp only: time_Parse_ten) simp
next
  case False
  then show ?thesis using time_Parse_length strict_date_length by blast
qed



subsection \<open>The splitter and the decoder\<close>

lemma parseLoop_decode:
  "parseLoop unm entries i acc =
     (case decode_pairs unm (filter (\<lambda>p. \<not> empty_pair p) (pairs_of (drop i entries))) of
        Inl e \<Rightarrow> Inl e
      | Inr ns \<Rightarrow> Inr (acc @ ns))"
proof (induction unm entries i acc rule: parseLoop.induct)
  case (1 unm entries i acc)
  show ?case
  proof (cases "i < length entries")
    case False
    then show ?thesis by (simp add: parseLoop.simps)
  next
    case True
    define content where
      "content = (if i + 1 < length entries then strings_TrimSpace (entries ! (i + 1)) else [])"
    have d: "pairs_of (drop i entries) = (entries ! i, content) # pairs_of (drop (i + 2) entries)"
    proof (cases "i + 1 < length entries")
      case True
      then have "drop i entries = entries ! i # entries ! (i + 1) # drop (i + 2) entries"
        by (metis Cons_nth_drop_Suc Suc_eq_plus1 add_2_eq_Suc' add_lessD1)
      then show ?thesis using True by (simp add: content_def)
    next
      case False
      with True have "drop i entries = [entries ! i]" "drop (i + 2) entries = []"
        by (simp_all add: Cons_nth_drop_Suc[symmetric])
      then show ?thesis using False by (simp add: content_def)
    qed
    show ?thesis
    proof (cases "strings_TrimSpace (entries ! i) = [] \<and> content = []")
      case e: True
      have "parseLoop unm entries i acc = parseLoop unm entries (i + 2) acc"
        using True e by (subst parseLoop.simps) (simp add: content_def Let_def)
      also have "\<dots> = (case decode_pairs unm (filter (\<lambda>p. \<not> empty_pair p)
                 (pairs_of (drop (i + 2) entries))) of Inl e \<Rightarrow> Inl e | Inr ns \<Rightarrow> Inr (acc @ ns))"
        apply (rule "1.IH"(1)[OF True refl refl])
        using e unfolding content_def by simp
      finally show ?thesis using e by (simp add: d empty_pair_def)
    next
      case ne: False
      show ?thesis
      proof (cases "unm (entries ! i) Note_zero")
        case (Inl err)
        have "parseLoop unm entries i acc = Inl err"
          using True ne Inl by (subst parseLoop.simps) (auto simp: content_def Let_def)
        then show ?thesis using ne Inl by (simp add: d empty_pair_def)
      next
        case (Inr nt)
        have "parseLoop unm entries i acc =
                parseLoop unm entries (i + 2) (acc @ [nt\<lparr>Content := content\<rparr>])"
          using True ne Inr by (subst parseLoop.simps) (auto simp: content_def Let_def)
        also have "\<dots> = (case decode_pairs unm (filter (\<lambda>p. \<not> empty_pair p)
                 (pairs_of (drop (i + 2) entries))) of Inl e \<Rightarrow> Inl e
                 | Inr ns \<Rightarrow> Inr ((acc @ [nt\<lparr>Content := content\<rparr>]) @ ns))"
          unfolding content_def
          apply (rule "1.IH"(2)[OF True refl refl _ Inr])
          using ne unfolding content_def by simp
        finally show ?thesis using ne Inr
          by (simp add: d empty_pair_def split: sum.splits)
      qed
    qed
  qed
qed

lemma parseNotes_decode: "parseNotes unm data = decode_pairs unm (kept_pairs data)"
  by (simp add: parseNotes_def parseLoop_decode kept_pairs_def drop_Suc split: sum.splits)

subsection \<open>The orchestrator\<close>

lemma validateNote_Content [simp]: "validateNote (n\<lparr>Content := b\<rparr>) = validateNote n"
  by (simp add: validateNote_def)

lemma validateLoop_None: "(validateLoop ns = None) = (\<forall>n\<in>set ns. validateNote n = None)"
  by (induction ns) (auto split: option.splits)

lemma decode_pairs_Inr:
  "decode_pairs unm ps = Inr ns \<Longrightarrow>
     list_all2 (\<lambda>p n. \<exists>d. unm (fst p) Note_zero = Inr d \<and> n = d\<lparr>Content := snd p\<rparr>) ps ns"
  by (induction ps arbitrary: ns) (auto split: sum.splits)

lemma decode_pairs_Inl:
  "decode_pairs unm ps = Inl e \<Longrightarrow> \<exists>p\<in>set ps. unm (fst p) Note_zero = Inl e"
  by (induction ps) (auto split: sum.splits)

lemma decode_pairs_fails:
  "\<exists>p\<in>set ps. isl (unm (fst p) Note_zero) \<Longrightarrow> \<exists>e. decode_pairs unm ps = Inl e"
proof (induction ps)
  case Nil
  then show ?case by simp
next
  case (Cons p ps)
  show ?case
  proof (cases "unm (fst p) Note_zero")
    case (Inl e)
    then show ?thesis by simp
  next
    case (Inr d)
    with Cons.prems have "\<exists>q\<in>set ps. isl (unm (fst q) Note_zero)" by auto
    then obtain e where "decode_pairs unm ps = Inl e" using Cons.IH by blast
    with Inr show ?thesis by simp
  qed
qed

lemma ProcessNotes_parse_error:
  "parseNotes unm data = Inl e \<Longrightarrow> ProcessNotes unm mar data dir fs st = (Some e, st, [])"
  by (simp add: ProcessNotes_def)

lemma ProcessNotes_invalid:
  "parseNotes unm data = Inr ns \<Longrightarrow> validateLoop ns = Some e \<Longrightarrow>
     ProcessNotes unm mar data dir fs st = (Some e, st, [])"
  by (simp add: ProcessNotes_def)

lemma ProcessNotes_write:
  "parseNotes unm data = Inr ns \<Longrightarrow> validateLoop ns = None \<Longrightarrow>
     ProcessNotes unm mar data dir fs st = writeLoop mar dir fs ns st"
  by (simp add: ProcessNotes_def)

lemma list_all2_set_left:
  "list_all2 P xs ys \<Longrightarrow> x \<in> set xs \<Longrightarrow> \<exists>y\<in>set ys. P x y"
  by (induction rule: list_all2_induct) auto



lemma valid_path: "validateNote n = None \<Longrightarrow> \<exists>p. buildMarkdownPath n dir = Inr p"
  by (auto simp: validateNote_def buildMarkdownPath_def Let_def split: if_splits sum.splits)

lemma writeLoop_Cons:
  "buildMarkdownPath n dir = Inr p \<Longrightarrow> formatNoteContent mar n = Inr t \<Longrightarrow>
   writeLoop mar dir fs (n # ns) st =
     (case MkdirAll fs (filepath_Dir p) os_ModePerm st of
        (Some e, st1) \<Rightarrow> (Some e, st1, [Call_MkdirAll (filepath_Dir p) os_ModePerm])
      | (None, st1) \<Rightarrow>
          (case AppendToFile fs p t st1 of
             (Some e, st2) \<Rightarrow>
               (Some e, st2, [Call_MkdirAll (filepath_Dir p) os_ModePerm, Call_AppendToFile p t])
           | (None, st2) \<Rightarrow>
               (case writeLoop mar dir fs ns st2 of
                  (r, st3, calls) \<Rightarrow>
                    (r, st3, Call_MkdirAll (filepath_Dir p) os_ModePerm
                               # Call_AppendToFile p t # calls))))"
  by (simp split: prod.splits option.splits)

lemma note_calls_ok:
  "buildMarkdownPath n dir = Inr p \<Longrightarrow> formatNoteContent mar n = Inr t \<Longrightarrow>
   note_calls mar dir n = [Call_MkdirAll (filepath_Dir p) os_ModePerm, Call_AppendToFile p t]"
  by (simp add: note_calls_def)

lemma writeLoop_trace:
  assumes "\<forall>n\<in>set ns. validateNote n = None"
    and "\<forall>n\<in>set ns. \<exists>t. formatNoteContent mar n = Inr t"
    and "writeLoop mar dir fs ns st = (r, st', calls)"
  shows "prefix calls (planned_calls mar dir ns) \<and> replay fs calls st = (r, st') \<and>
         (r = None \<longrightarrow> calls = planned_calls mar dir ns) \<and>
         (r \<noteq> None \<longrightarrow> calls \<noteq> [] \<and> fst (replay fs (butlast calls) st) = None)"
  using assms
proof (induction ns arbitrary: st r st' calls)
  case Nil
  then show ?case by (simp add: planned_calls_def)
next
  case (Cons n ns)
  from Cons.prems(1) obtain p where p: "buildMarkdownPath n dir = Inr p"
    using valid_path by fastforce
  from Cons.prems(2) obtain t where t: "formatNoteContent mar n = Inr t" by auto
  let ?mk = "Call_MkdirAll (filepath_Dir p) os_ModePerm"
  let ?ap = "Call_AppendToFile p t"
  have plan: "planned_calls mar dir (n # ns) = ?mk # ?ap # planned_calls mar dir ns"
    by (simp add: planned_calls_def note_calls_ok[OF p t])
  note w = Cons.prems(3)[unfolded writeLoop_Cons[OF p t]]
  obtain a st1 where mk: "MkdirAll fs (filepath_Dir p) os_ModePerm st = (a, st1)"
    by (cases "MkdirAll fs (filepath_Dir p) os_ModePerm st")
  show ?case
  proof (cases a)
    case (Some e)
    with w mk have "r = Some e" "st' = st1" "calls = [?mk]" by simp_all
    then show ?thesis using mk Some by (simp add: plan)
  next
    case None
    obtain b st2 where ap: "AppendToFile fs p t st1 = (b, st2)"
      by (cases "AppendToFile fs p t st1")
    show ?thesis
    proof (cases b)
      case (Some e)
      with w mk None ap have "r = Some e" "st' = st2" "calls = [?mk, ?ap]" by simp_all
      then show ?thesis using mk None ap Some by (simp add: plan)
    next
      case bn: None
      obtain r3 st3 calls3 where rec: "writeLoop mar dir fs ns st2 = (r3, st3, calls3)"
        by (cases "writeLoop mar dir fs ns st2")
      with w mk None ap bn have eq: "r = r3" "st' = st3" "calls = ?mk # ?ap # calls3"
        by simp_all
      from Cons.prems(1,2) have
        "\<forall>n\<in>set ns. validateNote n = None" "\<forall>n\<in>set ns. \<exists>t. formatNoteContent mar n = Inr t"
        by simp_all
      from Cons.IH[OF this rec] have ih:
        "prefix calls3 (planned_calls mar dir ns)" "replay fs calls3 st2 = (r3, st3)"
        "r3 = None \<longrightarrow> calls3 = planned_calls mar dir ns"
        "r3 \<noteq> None \<longrightarrow> calls3 \<noteq> [] \<and> fst (replay fs (butlast calls3) st2) = None"
        by simp_all
      show ?thesis using ih eq mk None ap bn by (simp add: plan)
    qed
  qed
qed

text \<open>
  C1. All-or-nothing validation: when a note decoded from one of the kept pairs of the
  buffer fails validation, \<^verbatim>\<open>ProcessNotes\<close> returns an error, leaves the file system
  in the state it was given and makes no call on it, whatever the base directory and
  the file system are. (When another pair fails to decode, the error is the decode
  error and still no call is made.)
\<close>

theorem ProcessNotes_all_or_nothing:
  assumes "p \<in> set (kept_pairs data)"
    and "unm (fst p) Note_zero = Inr n"
    and "validateNote n \<noteq> None"
  shows "\<exists>e. ProcessNotes unm mar data dir fs st = (Some e, st, [])"
proof (cases "parseNotes unm data")
  case (Inl e)
  then show ?thesis by (simp add: ProcessNotes_def)
next
  case (Inr ns)
  then have "list_all2 (\<lambda>p n. \<exists>d. unm (fst p) Note_zero = Inr d \<and> n = d\<lparr>Content := snd p\<rparr>)
      (kept_pairs data) ns"
    using decode_pairs_Inr by (simp add: parseNotes_decode)
  with assms(1) obtain n' d where "n' \<in> set ns" "unm (fst p) Note_zero = Inr d"
    "n' = d\<lparr>Content := snd p\<rparr>"
    using list_all2_set_left[of _ "kept_pairs data" ns p] by blast
  with assms(2,3) have "validateNote n' \<noteq> None" by simp
  with \<open>n' \<in> set ns\<close> have "validateLoop ns \<noteq> None" by (auto simp: validateLoop_None)
  then obtain e where "validateLoop ns = Some e" by auto
  with Inr show ?thesis by (simp add: ProcessNotes_def)
qed

theorem ProcessNotes_all_or_nothing_witness:
  "(''\<newline>title: \<newline>date: 2023-10-01\<newline>'', ''x'')
     \<in> set (kept_pairs ''---\<newline>title: A\<newline>date: 2023-10-01\<newline>---\<newline>a\<newline>---\<newline>title: \<newline>date: 2023-10-01\<newline>---\<newline>x'') \<and>
   yaml_Unmarshal ''\<newline>title: \<newline>date: 2023-10-01\<newline>'' Note_zero =
     Inr \<lparr>Title = [], Date = ''2023-10-01'', Tags = [], Content = []\<rparr> \<and>
   validateNote \<lparr>Title = [], Date = ''2023-10-01'', Tags = [], Content = []\<rparr> \<noteq> None \<and>
   (\<exists>e. ProcessNotes yaml_Unmarshal (yaml_Marshal yaml_scalar)
          ''---\<newline>title: A\<newline>date: 2023-10-01\<newline>---\<newline>a\<newline>---\<newline>title: \<newline>date: 2023-10-01\<newline>---\<newline>x''
          ''/notes'' MockFS NewMockFileSystem = (Some e, NewMockFileSystem, []))"
proof -
  have h1: "(''\<newline>title: \<newline>date: 2023-10-01\<newline>'', ''x'')
     \<in> set (kept_pairs ''---\<newline>title: A\<newline>date: 2023-10-01\<newline>---\<newline>a\<newline>---\<newline>title: \<newline>date: 2023-10-01\<newline>---\<newline>x'')"
    by code_simp
  have h2: "yaml_Unmarshal (fst (''\<newline>title: \<newline>date: 2023-10-01\<newline>'', ''x'')) Note_zero =
     Inr \<lparr>Title = [], Date = ''2023-10-01'', Tags = [], Content = []\<rparr>"
    by code_simp
  have h3: "validateNote \<lparr>Title = [], Date = ''2023-10-01'', Tags = [], Content = []\<rparr> \<noteq> None"
    by code_simp
  show ?thesis
    using h1 h2 h3
      ProcessNotes_all_or_nothing[of "(''\<newline>title: \<newline>date: 2023-10-01\<newline>'', ''x'')"
        "''---\<newline>title: A\<newline>date: 2023-10-01\<newline>---\<newline>a\<newline>---\<newline>title: \<newline>date: 2023-10-01\<newline>---\<newline>x''"
        yaml_Unmarshal "\<lparr>Title = [], Date = ''2023-10-01'', Tags = [], Content = []\<rparr>"
        "yaml_Marshal yaml_scalar" "''/notes''" MockFS NewMockFileSystem]
    by simp
qed

text \<open>
  C5. A decode failure aborts the run: when the decoder fails on the metadata of a kept
  pair, \<^verbatim>\<open>ProcessNotes\<close> returns the error of a pair that failed to decode (the first
  one, the error of \<^verbatim>\<open>parseNotes\<close>), makes no call on the file system and leaves its
  state as it was; the notes decoded before the failure are not written. The buffer is
  an argument that is only read.
\<close>

theorem ProcessNotes_decode_failure:
  assumes "\<exists>p\<in>set (kept_pairs data). isl (unm (fst p) Note_zero)"
  shows "\<exists>e. (\<exists>p\<in>set (kept_pairs data). unm (fst p) Note_zero = Inl e) \<and>
             parseNotes unm data = Inl e \<and>
             ProcessNotes unm mar data dir fs st = (Some e, st, [])"
proof -
  from assms obtain e where e: "parseNotes unm data = Inl e"
    using decode_pairs_fails by (auto simp: parseNotes_decode)
  then have "\<exists>p\<in>set (kept_pairs data). unm (fst p) Note_zero = Inl e"
    using decode_pairs_Inl by (simp add: parseNotes_decode)
  with e show ?thesis by (simp add: ProcessNotes_def)
qed

theorem ProcessNotes_decode_failure_witness:
  "(\<exists>p\<in>set (kept_pairs ''---\<newline>title: A\<newline>date: 2024-01-01\<newline>---\<newline>ok\<newline>---\<newline>title: [\<newline>---\<newline>x'').
      isl (yaml_Unmarshal (fst p) Note_zero)) \<and>
   (\<exists>e. ProcessNotes yaml_Unmarshal (yaml_Marshal yaml_scalar)
          ''---\<newline>title: A\<newline>date: 2024-01-01\<newline>---\<newline>ok\<newline>---\<newline>title: [\<newline>---\<newline>x''
          ''/notes'' MockFS NewMockFileSystem = (Some e, NewMockFileSystem, []))"
proof -
  have h: "\<exists>p\<in>set (kept_pairs ''---\<newline>title: A\<newline>date: 2024-01-01\<newline>---\<newline>ok\<newline>---\<newline>title: [\<newline>---\<newline>x'').
      isl (yaml_Unmarshal (fst p) Note_zero)"
    by code_simp
  show ?thesis
    using h
      ProcessNotes_decode_failure[of
        "''---\<newline>title: A\<newline>date: 2024-01-01\<newline>---\<newline>ok\<newline>---\<newline>title: [\<newline>---\<newline>x''"
        yaml_Unmarshal "yaml_Marshal yaml_scalar" "''/notes''" MockFS NewMockFileSystem]
    by blast
qed



text \<open>
  C8. The write phase: for a buffer whose notes decode and pass validation (and that the
  encoder can encode), the calls made are an initial part of the calls planned for the
  notes in buffer order, a \<^verbatim>\<open>MkdirAll\<close> and an \<^verbatim>\<open>AppendToFile\<close> for each note. The
  result and the final state are those of making these calls one after the other from
  the initial state. Without an error every planned call is made; with an error every
  call but the last succeeded, the last one returned the error, and nothing is called
  after it: what was appended before remains.
\<close>

theorem write_phase_order:
  assumes "parseNotes unm data = Inr ns"
    and "validateLoop ns = None"
    and "\<forall>n\<in>set ns. \<exists>t. formatNoteContent mar n = Inr t"
  shows "case ProcessNotes unm mar data dir fs st of
           (r, st', calls) \<Rightarrow>
             prefix calls (planned_calls mar dir ns) \<and>
             replay fs calls st = (r, st') \<and>
             (r = None \<longrightarrow> calls = planned_calls mar dir ns) \<and>
             (r \<noteq> None \<longrightarrow> calls \<noteq> [] \<and> fst (replay fs (butlast calls) st) = None)"
proof -
  obtain r st' calls where w: "writeLoop mar dir fs ns st = (r, st', calls)"
    by (cases "writeLoop mar dir fs ns st")
  from assms(2) have v: "\<forall>n\<in>set ns. validateNote n = None"
    by (simp add: validateLoop_None)
  from writeLoop_trace[OF v assms(3) w] w assms(1,2) show ?thesis
    by (simp add: ProcessNotes_def)
qed

lemma writeLoop_sim:
  assumes mk: "\<And>p m a b. R a b \<Longrightarrow> fst (MkdirAll fs1 p m a) = fst (MkdirAll fs2 p m b) \<and>
                  R (snd (MkdirAll fs1 p m a)) (snd (MkdirAll fs2 p m b))"
    and ap: "\<And>p d a b. R a b \<Longrightarrow> fst (AppendToFile fs1 p d a) = fst (AppendToFile fs2 p d b) \<and>
                  R (snd (AppendToFile fs1 p d a)) (snd (AppendToFile fs2 p d b))"
  shows "R s1 s2 \<Longrightarrow>
         fst (writeLoop mar dir fs1 ns s1) = fst (writeLoop mar dir fs2 ns s2) \<and>
         snd (snd (writeLoop mar dir fs1 ns s1)) = snd (snd (writeLoop mar dir fs2 ns s2)) \<and>
         R (fst (snd (writeLoop mar dir fs1 ns s1))) (fst (snd (writeLoop mar dir fs2 ns s2)))"
proof (induction ns arbitrary: s1 s2)
  case Nil
  then show ?case by simp
next
  case (Cons n ns)
  show ?case
  proof (cases "buildMarkdownPath n dir")
    case (Inl e)
    then show ?thesis using Cons.prems by simp
  next
    case (Inr p)
    obtain a1 t1 where m1: "MkdirAll fs1 (filepath_Dir p) os_ModePerm s1 = (a1, t1)"
      by (cases "MkdirAll fs1 (filepath_Dir p) os_ModePerm s1")
    obtain a2 t2 where m2: "MkdirAll fs2 (filepath_Dir p) os_ModePerm s2 = (a2, t2)"
      by (cases "MkdirAll fs2 (filepath_Dir p) os_ModePerm s2")
    from mk[OF Cons.prems, of "filepath_Dir p" os_ModePerm] m1 m2
    have a: "a1 = a2" and rt: "R t1 t2" by simp_all
    show ?thesis
    proof (cases a1)
      case (Some e)
      then show ?thesis using Inr m1 m2 a rt by simp
    next
      case None
      show ?thesis
      proof (cases "formatNoteContent mar n")
        case (Inl e)
        then show ?thesis using Inr m1 m2 a rt None by simp
      next
        case fr: (Inr t)
        obtain b1 u1 where q1: "AppendToFile fs1 p t t1 = (b1, u1)"
          by (cases "AppendToFile fs1 p t t1")
        obtain b2 u2 where q2: "AppendToFile fs2 p t t2 = (b2, u2)"
          by (cases "AppendToFile fs2 p t t2")
        from ap[OF rt, of p t] q1 q2 have b: "b1 = b2" and ru: "R u1 u2" by simp_all
        show ?thesis
        proof (cases b1)
          case (Some e)
          then show ?thesis using Inr m1 m2 a None fr q1 q2 b ru by simp
        next
          case bn: None
          from Cons.IH[OF ru] show ?thesis
            using Inr m1 m2 a None fr q1 q2 b bn by (auto split: prod.splits)
        qed
      qed
    qed
  qed
qed

text \<open>
  C10. Determinism: two runs on the same buffer and base directory, on file systems that
  start in related states and answer every \<^verbatim>\<open>MkdirAll\<close> and \<^verbatim>\<open>AppendToFile\<close> call
  alike from related states, return the same result, make the same calls with the same
  arguments and end in related states. With equality as the relation, equal file systems
  end in equal states.
\<close>

theorem ProcessNotes_deterministic:
  assumes "R s1 s2"
    and "\<forall>p m a b. R a b \<longrightarrow> fst (MkdirAll fs1 p m a) = fst (MkdirAll fs2 p m b) \<and>
                  R (snd (MkdirAll fs1 p m a)) (snd (MkdirAll fs2 p m b))"
    and "\<forall>p d a b. R a b \<longrightarrow> fst (AppendToFile fs1 p d a) = fst (AppendToFile fs2 p d b) \<and>
                  R (snd (AppendToFile fs1 p d a)) (snd (AppendToFile fs2 p d b))"
  shows "fst (ProcessNotes unm mar data dir fs1 s1) = fst (ProcessNotes unm mar data dir fs2 s2) \<and>
         snd (snd (ProcessNotes unm mar data dir fs1 s1)) =
           snd (snd (ProcessNotes unm mar data dir fs2 s2)) \<and>
         R (fst (snd (ProcessNotes unm mar data dir fs1 s1)))
           (fst (snd (ProcessNotes unm mar data dir fs2 s2)))"
proof (cases "parseNotes unm data")
  case (Inl e)
  then show ?thesis using assms(1) by (simp add: ProcessNotes_def)
next
  case (Inr ns)
  show ?thesis
  proof (cases "validateLoop ns")
    case (Some e)
    then show ?thesis using Inr assms(1) by (simp add: ProcessNotes_def)
  next
    case None
    have "fst (writeLoop mar dir fs1 ns s1) = fst (writeLoop mar dir fs2 ns s2) \<and>
         snd (snd (writeLoop mar dir fs1 ns s1)) = snd (snd (writeLoop mar dir fs2 ns s2)) \<and>
         R (fst (snd (writeLoop mar dir fs1 ns s1))) (fst (snd (writeLoop mar dir fs2 ns s2)))"
      by (rule writeLoop_sim[where R = R]) (use assms in blast)+
    then show ?thesis using Inr None by (simp add: ProcessNotes_def)
  qed
qed

theorem write_phase_order_witness:
  "parseNotes yaml_Unmarshal
     ''---\<newline>title: A\<newline>date: 2024-01-02\<newline>---\<newline>a\<newline>---\<newline>title: B\<newline>date: 2024-01-01\<newline>---\<newline>b'' =
     Inr [\<lparr>Title = ''A'', Date = ''2024-01-02'', Tags = [], Content = ''a''\<rparr>,
          \<lparr>Title = ''B'', Date = ''2024-01-01'', Tags = [], Content = ''b''\<rparr>] \<and>
   validateLoop [\<lparr>Title = ''A'', Date = ''2024-01-02'', Tags = [], Content = ''a''\<rparr>,
                 \<lparr>Title = ''B'', Date = ''2024-01-01'', Tags = [], Content = ''b''\<rparr>] = None \<and>
   (case ProcessNotes yaml_Unmarshal (yaml_Marshal yaml_scalar)
      ''---\<newline>title: A\<newline>date: 2024-01-02\<newline>---\<newline>a\<newline>---\<newline>title: B\<newline>date: 2024-01-01\<newline>---\<newline>b''
      ''/n'' (FailingFS ''/n/2024/01/01.md'' (fs_Error ''disk full'')) NewMockFileSystem of
      (r, st', calls) \<Rightarrow>
        r = Some (fs_Error ''disk full'') \<and>
        calls = [Call_MkdirAll ''/n/2024/01'' 511,
                 Call_AppendToFile ''/n/2024/01/02.md''
                   ''---\<newline>title: A\<newline>date: 2024-01-02\<newline>tags: []\<newline>---\<newline>a\<newline>\<newline>'',
                 Call_MkdirAll ''/n/2024/01'' 511,
                 Call_AppendToFile ''/n/2024/01/01.md''
                   ''---\<newline>title: B\<newline>date: 2024-01-01\<newline>tags: []\<newline>---\<newline>b\<newline>\<newline>''] \<and>
        Files st' ''/n/2024/01/02.md'' =
          Some ''---\<newline>title: A\<newline>date: 2024-01-02\<newline>tags: []\<newline>---\<newline>a\<newline>\<newline>'' \<and>
        Files st' ''/n/2024/01/01.md'' = None \<and>
        replay (FailingFS ''/n/2024/01/01.md'' (fs_Error ''disk full'')) calls NewMockFileSystem
          = (r, st') \<and>
        fst (replay (FailingFS ''/n/2024/01/01.md'' (fs_Error ''disk full'')) (butlast calls)
               NewMockFileSystem) = None)"
proof -
  let ?data = "''---\<newline>title: A\<newline>date: 2024-01-02\<newline>---\<newline>a\<newline>---\<newline>title: B\<newline>date: 2024-01-01\<newline>---\<newline>b''"
  let ?ns = "[\<lparr>Title = ''A'', Date = ''2024-01-02'', Tags = [], Content = ''a''\<rparr>,
              \<lparr>Title = ''B'', Date = ''2024-01-01'', Tags = [], Content = ''b''\<rparr>]"
  let ?fs = "FailingFS ''/n/2024/01/01.md'' (fs_Error ''disk full'')"
  let ?P = "ProcessNotes yaml_Unmarshal (yaml_Marshal yaml_scalar) ?data ''/n'' ?fs NewMockFileSystem"
  have h1: "parseNotes yaml_Unmarshal ?data = Inr ?ns" by code_simp
  have h2: "validateLoop ?ns = None" by code_simp
  have h3: "\<forall>n\<in>set ?ns. \<exists>t. formatNoteContent (yaml_Marshal yaml_scalar) n = Inr t"
    by (simp add: formatNoteContent_def yaml_Marshal_def Let_def)
  have ev: "(case ?P of (r, st', calls) \<Rightarrow>
              (r, calls, Files st' ''/n/2024/01/02.md'', Files st' ''/n/2024/01/01.md'')) =
            (Some (fs_Error ''disk full''),
             [Call_MkdirAll ''/n/2024/01'' 511,
              Call_AppendToFile ''/n/2024/01/02.md''
                ''---\<newline>title: A\<newline>date: 2024-01-02\<newline>tags: []\<newline>---\<newline>a\<newline>\<newline>'',
              Call_MkdirAll ''/n/2024/01'' 511,
              Call_AppendToFile ''/n/2024/01/01.md''
                ''---\<newline>title: B\<newline>date: 2024-01-01\<newline>tags: []\<newline>---\<newline>b\<newline>\<newline>''],
             Some ''---\<newline>title: A\<newline>date: 2024-01-02\<newline>tags: []\<newline>---\<newline>a\<newline>\<newline>'',
             None)"
    by code_simp
  note t = write_phase_order[of yaml_Unmarshal ?data ?ns "yaml_Marshal yaml_scalar" "''/n''"
      ?fs NewMockFileSystem, OF h1 h2 h3]
  obtain r st' calls where p: "?P = (r, st', calls)" by (cases ?P)
  show ?thesis using h1 h2 t ev unfolding p by simp
qed

theorem ProcessNotes_deterministic_witness:
  "fst (ProcessNotes yaml_Unmarshal (yaml_Marshal yaml_scalar)
     ''---\<newline>title: A\<newline>date: 2024-01-02\<newline>---\<newline>a'' ''/n'' MockFS NewMockFileSystem) =
   fst (ProcessNotes yaml_Unmarshal (yaml_Marshal yaml_scalar)
     ''---\<newline>title: A\<newline>date: 2024-01-02\<newline>---\<newline>a'' ''/n'' MockFS NewMockFileSystem) \<and>
   snd (snd (ProcessNotes yaml_Unmarshal (yaml_Marshal yaml_scalar)
     ''---\<newline>title: A\<newline>date: 2024-01-02\<newline>---\<newline>a'' ''/n'' MockFS NewMockFileSystem)) =
   snd (snd (ProcessNotes yaml_Unmarshal (yaml_Marshal yaml_scalar)
     ''---\<newline>title: A\<newline>date: 2024-01-02\<newline>---\<newline>a'' ''/n'' MockFS NewMockFileSystem)) \<and>
   fst (snd (ProcessNotes yaml_Unmarshal (yaml_Marshal yaml_scalar)
     ''---\<newline>title: A\<newline>date: 2024-01-02\<newline>---\<newline>a'' ''/n'' MockFS NewMockFileSystem)) =
   fst (snd (ProcessNotes yaml_Unmarshal (yaml_Marshal yaml_scalar)
     ''---\<newline>title: A\<newline>date: 2024-01-02\<newline>---\<newline>a'' ''/n'' MockFS NewMockFileSystem))"
proof -
  have r0: "NewMockFileSystem = NewMockFileSystem" by simp
  have mk: "\<forall>p m a b. a = b \<longrightarrow>
      fst (MkdirAll MockFS p m a) = fst (MkdirAll MockFS p m b) \<and>
      snd (MkdirAll MockFS p m a) = snd (MkdirAll MockFS p m b)"
    by simp
  have ap: "\<forall>p d a b. a = b \<longrightarrow>
      fst (AppendToFile MockFS p d a) = fst (AppendToFile MockFS p d b) \<and>
      snd (AppendToFile MockFS p d a) = snd (AppendToFile MockFS p d b)"
    by simp
  show ?thesis
    by (rule ProcessNotes_deterministic[of "(=)" NewMockFileSystem NewMockFileSystem MockFS
        MockFS yaml_Unmarshal "yaml_Marshal yaml_scalar"
        "''---\<newline>title: A\<newline>date: 2024-01-02\<newline>---\<newline>a''" "''/n''", OF r0 mk ap])
qed

subsection \<open>Splitting at every occurrence\<close>


lemma strings_Join_Cons: "xs \<noteq> [] \<Longrightarrow> strings_Join (x # xs) sep = x @ sep @ strings_Join xs sep"
  by (cases xs) auto

lemma strings_Join_Cons_hd:
  "strings_Join ((c # x) # xs) sep = c # strings_Join (x # xs) sep"
  by (cases xs) auto






lemma Contains_Cons:
  "strings_Contains (c # x) sub \<Longrightarrow> \<not> strings_HasPrefix (c # x) sub \<Longrightarrow> strings_Contains x sub"
  by simp








subsection \<open>The serializer\<close>

lemma split_char_nonempty: "split_char d s \<noteq> []"
  by (induction s) (auto split: list.splits)

lemma split_char_none: "d \<notin> set a \<Longrightarrow> split_char d a = [a]"
  by (induction a) auto

lemma split_char_append: "d \<notin> set a \<Longrightarrow> split_char d (a @ d # b) = a # split_char d b"
  by (induction a) auto

lemma expand_plain: "CHR ''$'' \<notin> set t \<Longrightarrow> expand t m = t"
  by (induction t) auto

lemma Join_split_char: "strings_Join (split_char d s) [d] = s"
proof (induction s)
  case Nil
  then show ?case by simp
next
  case (Cons c s)
  obtain x xs where sp: "split_char d s = x # xs"
    using split_char_nonempty by (cases "split_char d s") auto
  show ?case
  proof (cases "c = d")
    case True
    then show ?thesis using Cons sp by (simp add: strings_Join_Cons)
  next
    case False
    then show ?thesis using Cons sp by (simp add: strings_Join_Cons_hd)
  qed
qed

lemma tag_lines:
  "\<forall>t\<in>set tags. CHR 0x0A \<notin> set (sc t) \<Longrightarrow>
   split_char (CHR 0x0A) (concat (map (\<lambda>t. ''    - '' @ sc t @ ''\<newline>'') tags)) =
     map (\<lambda>t. ''    - '' @ sc t) tags @ [[]]"
proof (induction tags)
  case Nil
  then show ?case by simp
next
  case (Cons t tags)
  have "CHR 0x0A \<notin> set (''    - '' @ sc t)" using Cons.prems by simp
  from split_char_append[OF this]
  have "split_char (CHR 0x0A) ((''    - '' @ sc t) @ CHR 0x0A #
          concat (map (\<lambda>t. ''    - '' @ sc t @ ''\<newline>'') tags)) =
        (''    - '' @ sc t) # split_char (CHR 0x0A) (concat (map (\<lambda>t. ''    - '' @ sc t @ ''\<newline>'') tags))" .
  then show ?case using Cons by simp
qed

lemma tags_block_lines:
  assumes "\<forall>t\<in>set tags. CHR 0x0A \<notin> set (sc t)"
  shows "\<forall>l\<in>set (split_char (CHR 0x0A) (tags_block sc tags)). \<not> strings_HasPrefix l ''date:''"
proof (cases "tags = []")
  case True
  then show ?thesis by (simp add: tags_block_def strings_HasPrefix_def)
next
  case False
  have "split_char (CHR 0x0A) (tags_block sc tags) =
        ''tags:'' # map (\<lambda>t. ''    - '' @ sc t) tags @ [[]]"
    using False split_char_append[of "CHR 0x0A" "''tags:''"] tag_lines[OF assms]
    by (simp add: tags_block_def)
  then show ?thesis by (auto simp: strings_HasPrefix_def)
qed

lemma removeQuotes_front_matter:
  assumes "CHR 0x0A \<notin> set T" "CHR 0x0A \<notin> set Q" "CHR ''$'' \<notin> set D"
    and "\<forall>l\<in>set (split_char (CHR 0x0A) R). \<not> strings_HasPrefix l ''date:''"
  shows "removeQuotesFromDateField (''title: '' @ T @ ''\<newline>'' @ ''date: '' @ Q @ ''\<newline>'' @ R) D =
         ''title: '' @ T @ ''\<newline>'' @ ''date: '' @ D @ ''\<newline>'' @ R"
proof -
  let ?f = "\<lambda>l. if strings_HasPrefix l ''date:'' then expand (''date: '' @ D) l else l"
  have s1: "split_char (CHR 0x0A) (''title: '' @ T @ ''\<newline>'' @ ''date: '' @ Q @ ''\<newline>'' @ R) =
        (''title: '' @ T) # (''date: '' @ Q) # split_char (CHR 0x0A) R"
    using split_char_append[of "CHR 0x0A" "''title: '' @ T" "''date: '' @ Q @ ''\<newline>'' @ R"]
      split_char_append[of "CHR 0x0A" "''date: '' @ Q" R] assms(1,2)
    by simp
  have m: "map ?f (split_char (CHR 0x0A) R) = split_char (CHR 0x0A) R"
    using assms(4) by (simp add: map_idI)
  have e: "expand (''date: '' @ D) (''date: '' @ Q) = ''date: '' @ D"
    using assms(3) by (simp add: expand_plain)
  have "map ?f ((''title: '' @ T) # (''date: '' @ Q) # split_char (CHR 0x0A) R) =
        (''title: '' @ T) # (''date: '' @ D) # split_char (CHR 0x0A) R"
    using m e by (simp add: strings_HasPrefix_def)
  then have "removeQuotesFromDateField
       (''title: '' @ T @ ''\<newline>'' @ ''date: '' @ Q @ ''\<newline>'' @ R) D =
     strings_Join ((''title: '' @ T) # (''date: '' @ D) # split_char (CHR 0x0A) R) ''\<newline>''"
    unfolding removeQuotesFromDateField_def Let_def s1 by simp
  also have "\<dots> = (''title: '' @ T) @ ''\<newline>'' @ (''date: '' @ D) @ ''\<newline>'' @
      strings_Join (split_char (CHR 0x0A) R) ''\<newline>''"
    using split_char_nonempty[of "CHR 0x0A" R] by (simp add: strings_Join_Cons)
  also have "\<dots> = ''title: '' @ T @ ''\<newline>'' @ ''date: '' @ D @ ''\<newline>'' @ R"
    using Join_split_char[of "CHR 0x0A" R] by simp
  finally show ?thesis .
qed

lemma yaml_Marshal_block:
  "yaml_Marshal sc fm =
     Inr (''title: '' @ sc (FM_Title fm) @ ''\<newline>'' @ ''date: '' @ sc (FM_Date fm) @ ''\<newline>'' @
          tags_block sc (FM_Tags fm))"
  by (simp add: yaml_Marshal_def tags_block_def)

lemma formatNoteContent_yaml:
  assumes "CHR 0x0A \<notin> set (sc (Title n))" "CHR 0x0A \<notin> set (sc (Date n))"
    and "\<forall>t\<in>set (Tags n). CHR 0x0A \<notin> set (sc t)" "CHR ''$'' \<notin> set (Date n)"
  shows "formatNoteContent (yaml_Marshal sc) n =
     Inr (''---\<newline>'' @ ''title: '' @ sc (Title n) @ ''\<newline>'' @ ''date: '' @ Date n @ ''\<newline>'' @
          tags_block sc (Tags n) @ ''---\<newline>'' @ Content n @ ''\<newline>\<newline>'')"
  using removeQuotes_front_matter[OF assms(1,2,4) tags_block_lines[OF assms(3)]]
  by (simp add: formatNoteContent_def yaml_Marshal_block Let_def)

text \<open>
  C2 as claimed fails on its own example: the file written for the buffer of the claim
  is not the text with the tag indented by two spaces.
\<close>

theorem two_space_tags_counterexample:
  "(case ProcessNotes yaml_Unmarshal (yaml_Marshal yaml_scalar)
      ''---\<newline>title: T\<newline>date: 2024-09-12\<newline>tags:\<newline>  - a\<newline>---\<newline>Body''
      ''/archive'' MockFS NewMockFileSystem of
      (r, st, calls) \<Rightarrow> Files st ''/archive/2024/09/12.md'') \<noteq>
   Some ''---\<newline>title: T\<newline>date: 2024-09-12\<newline>tags:\<newline>  - a\<newline>---\<newline>Body\<newline>\<newline>''"
  by code_simp

text \<open>
  C2, as the code has it. The serializer writes \<^verbatim>\<open>---\<close>, the front matter of the
  encoder with the \<^verbatim>\<open>date:\<close> line replaced by \<^verbatim>\<open>date: \<close> and the date as it is,
  \<^verbatim>\<open>---\<close>, the content and an empty line. With the encoder of the library the tags
  are a dash list indented by four spaces, one tag per line in the order of the note,
  and a note without tags has the line \<^verbatim>\<open>tags: []\<close>. This holds for every note
  whose scalars the encoder writes on one line and whose date has no dollar sign. The
  buffer of the claim, processed with base directory \<^verbatim>\<open>/archive\<close>, gives the file
  \<^verbatim>\<open>/archive/2024/09/12.md\<close> with the tag indented by four spaces.
\<close>

theorem canonical_serialized_form:
  "(CHR 0x0A \<notin> set (sc (Title n)) \<and> CHR 0x0A \<notin> set (sc (Date n)) \<and>
    (\<forall>t\<in>set (Tags n). CHR 0x0A \<notin> set (sc t)) \<and> CHR ''$'' \<notin> set (Date n) \<longrightarrow>
    formatNoteContent (yaml_Marshal sc) n =
      Inr (''---\<newline>'' @ ''title: '' @ sc (Title n) @ ''\<newline>'' @ ''date: '' @ Date n @ ''\<newline>'' @
           (if Tags n = [] then ''tags: []\<newline>''
            else ''tags:\<newline>'' @ concat (map (\<lambda>t. ''    - '' @ sc t @ ''\<newline>'') (Tags n))) @
           ''---\<newline>'' @ Content n @ ''\<newline>\<newline>'')) \<and>
   (case ProcessNotes yaml_Unmarshal (yaml_Marshal yaml_scalar)
      ''---\<newline>title: T\<newline>date: 2024-09-12\<newline>tags:\<newline>  - a\<newline>---\<newline>Body''
      ''/archive'' MockFS NewMockFileSystem of
      (r, st, calls) \<Rightarrow> (r, Files st ''/archive/2024/09/12.md'')) =
   (None, Some ''---\<newline>title: T\<newline>date: 2024-09-12\<newline>tags:\<newline>    - a\<newline>---\<newline>Body\<newline>\<newline>'')"
proof -
  have "(case ProcessNotes yaml_Unmarshal (yaml_Marshal yaml_scalar)
      ''---\<newline>title: T\<newline>date: 2024-09-12\<newline>tags:\<newline>  - a\<newline>---\<newline>Body''
      ''/archive'' MockFS NewMockFileSystem of
      (r, st, calls) \<Rightarrow> (r, Files st ''/archive/2024/09/12.md'')) =
   (None, Some ''---\<newline>title: T\<newline>date: 2024-09-12\<newline>tags:\<newline>    - a\<newline>---\<newline>Body\<newline>\<newline>'')"
    by code_simp
  then show ?thesis using formatNoteContent_yaml[of sc n] by (simp add: tags_block_def)
qed

theorem canonical_serialized_form_witness:
  "CHR 0x0A \<notin> set (yaml_scalar ''Test Note'') \<and> CHR 0x0A \<notin> set (yaml_scalar ''2023-10-01'') \<and>
   CHR 0x0A \<notin> set (yaml_scalar ''testing'') \<and> CHR 0x0A \<notin> set (yaml_scalar ''golang'') \<and>
   CHR ''$'' \<notin> set ''2023-10-01'' \<and>
   formatNoteContent (yaml_Marshal yaml_scalar)
     \<lparr>Title = ''Test Note'', Date = ''2023-10-01'', Tags = [''testing'', ''golang''],
      Content = ''This is a test note content.''\<rparr> =
   Inr ''---\<newline>title: Test Note\<newline>date: 2023-10-01\<newline>tags:\<newline>    - testing\<newline>    - golang\<newline>---\<newline>This is a test note content.\<newline>\<newline>''"
proof -
  have h: "CHR 0x0A \<notin> set (yaml_scalar ''Test Note'') \<and> CHR 0x0A \<notin> set (yaml_scalar ''2023-10-01'') \<and>
   CHR 0x0A \<notin> set (yaml_scalar ''testing'') \<and> CHR 0x0A \<notin> set (yaml_scalar ''golang'') \<and>
   CHR ''$'' \<notin> set ''2023-10-01''"
    by code_simp
  have y: "yaml_scalar ''Test Note'' = ''Test Note''" "yaml_scalar ''testing'' = ''testing''"
    "yaml_scalar ''golang'' = ''golang''"
    by code_simp+
  show ?thesis
    using h canonical_serialized_form[of yaml_scalar
      "\<lparr>Title = ''Test Note'', Date = ''2023-10-01'', Tags = [''testing'', ''golang''],
      Content = ''This is a test note content.''\<rparr>"]
    by (simp add: y)
qed

subsection \<open>The path of a note\<close>

lemma decimal_snoc: "decimal (ds @ [c]) = 10 * decimal ds + (of_char c - 48)"
  by (simp add: decimal_def)

lemma itoa_small: "n < 10 \<Longrightarrow> itoa n = [char_of (48 + n)]"
  by (simp add: itoa.simps)

lemma itoa_step: "0 < k \<Longrightarrow> v < 10 \<Longrightarrow> itoa (10 * k + v) = itoa k @ [char_of (48 + v)]"
  by (subst itoa.simps) simp

lemma digit_char_of: "is_digit_char c \<Longrightarrow> char_of (48 + (of_char c - 48 :: nat)) = c"
  by (simp add: is_digit_char_def)

lemma digit_val_lt: "is_digit_char c \<Longrightarrow> (of_char c - 48 :: nat) < 10"
  by (auto simp: is_digit_char_def)

lemma itoa_nonempty: "itoa n \<noteq> []"
  by (subst itoa.simps) simp

lemma zero_pad_decimal:
  "ds \<noteq> [] \<Longrightarrow> list_all is_digit_char ds \<Longrightarrow>
     zero_pad (length ds) (decimal ds) = ds \<and> length (itoa (decimal ds)) \<le> length ds"
proof (induction ds rule: rev_induct)
  case Nil
  then show ?case by simp
next
  case (snoc c ds)
  from snoc.prems have dc: "is_digit_char c" and dds: "list_all is_digit_char ds" by simp_all
  let ?v = "of_char c - 48 :: nat"
  have v: "?v < 10" using digit_val_lt[OF dc] .
  have cc: "char_of (48 + ?v) = c" using digit_char_of[OF dc] .
  show ?case
  proof (cases "decimal ds = 0")
    case True
    then have n: "decimal (ds @ [c]) = ?v" by (simp add: decimal_snoc)
    have i: "itoa ?v = [c]" using itoa_small[OF v] cc by simp
    have "ds = replicate (length ds) (CHR ''0'')"
    proof (cases "ds = []")
      case True
      then show ?thesis by simp
    next
      case False
      from snoc.IH[OF False dds] True have "zero_pad (length ds) 0 = ds" by simp
      moreover have "itoa 0 = ''0''" by code_simp
      ultimately have "replicate (length ds - 1) (CHR ''0'') @ ''0'' = ds"
        by (simp add: zero_pad_def)
      then have "ds = replicate (length ds - 1) (CHR ''0'') @ replicate 1 (CHR ''0'')" by simp
      also have "\<dots> = replicate (length ds - 1 + 1) (CHR ''0'')"
        by (simp only: replicate_add)
      finally show ?thesis using False by (simp add: Suc_leI)
    qed
    then show ?thesis unfolding n by (simp add: zero_pad_def i)
  next
    case False
    then have k: "0 < decimal ds" by simp
    have ne: "ds \<noteq> []" using False by (auto simp: decimal_def)
    have i: "itoa (decimal (ds @ [c])) = itoa (decimal ds) @ [c]"
      using itoa_step[OF k v] cc by (simp add: decimal_snoc)
    from snoc.IH[OF ne dds] have ih: "zero_pad (length ds) (decimal ds) = ds"
      "length (itoa (decimal ds)) \<le> length ds" by simp_all
    show ?thesis using ih by (simp add: i zero_pad_def)
  qed
qed

lemma strict_date_parts:
  assumes "strict_date d"
  shows "time_Parse d = Inr \<lparr>Year = decimal (take 4 d), Month = decimal (take 2 (drop 5 d)),
                              Day = decimal (drop 8 d)\<rparr>"
    and "list_all is_digit_char (take 4 d)" "length (take 4 d) = 4"
    and "list_all is_digit_char (take 2 (drop 5 d))" "length (take 2 (drop 5 d)) = 2"
    and "list_all is_digit_char (drop 8 d)" "length (drop 8 d) = 2"
proof -
  from assms have "length d = 10" by (rule strict_date_length)
  from length_ten[OF this] obtain a b c e f g h i j k where
    d: "d = [a, b, c, e, f, g, h, i, j, k]" by blast
  show "time_Parse d = Inr \<lparr>Year = decimal (take 4 d), Month = decimal (take 2 (drop 5 d)),
                              Day = decimal (drop 8 d)\<rparr>"
    using assms unfolding d by (simp only: time_Parse_ten) simp
  show "list_all is_digit_char (take 4 d)" "length (take 4 d) = 4"
    "list_all is_digit_char (take 2 (drop 5 d))" "length (take 2 (drop 5 d)) = 2"
    "list_all is_digit_char (drop 8 d)" "length (drop 8 d) = 2"
    using assms unfolding d by (simp_all add: strict_date_def)
qed

lemma buildMarkdownPath_parts:
  assumes "strict_date (Date n)"
  shows "buildMarkdownPath n base =
     Inr (filepath_Join [filepath_Join [base, take 4 (Date n) @ ''/'' @ take 2 (drop 5 (Date n))],
                         drop 8 (Date n) @ ''.md''])"
proof -
  note p = strict_date_parts[OF assms]
  have y: "zero_pad 4 (decimal (take 4 (Date n))) = take 4 (Date n)"
    using zero_pad_decimal[of "take 4 (Date n)"] p(2,3) by force
  have m: "zero_pad 2 (decimal (take 2 (drop 5 (Date n)))) = take 2 (drop 5 (Date n))"
    using zero_pad_decimal[of "take 2 (drop 5 (Date n))"] p(4,5) by force
  have d: "zero_pad 2 (decimal (drop 8 (Date n))) = drop 8 (Date n)"
    using zero_pad_decimal[of "drop 8 (Date n)"] p(6,7) by force
  show ?thesis
    by (simp add: buildMarkdownPath_def p(1) Format_year_month_def y m d Let_def)
qed

lemma split_char_no_sep: "e \<in> set (split_char d s) \<Longrightarrow> d \<notin> set e"
proof (induction s arbitrary: e)
  case Nil
  then show ?case by simp
next
  case (Cons c s)
  obtain x xs where sp: "split_char d s = x # xs"
    using split_char_nonempty by (cases "split_char d s") auto
  show ?case
  proof (cases "c = d")
    case True
    with Cons.prems have "e = [] \<or> e \<in> set (split_char d s)" by auto
    then show ?thesis using Cons.IH by auto
  next
    case False
    with Cons.prems sp have "e = c # x \<or> e \<in> set xs" by auto
    then show ?thesis using Cons.IH[of x] Cons.IH[of e] sp False by auto
  qed
qed

lemma split_char_app: "split_char d (a @ d # c) = split_char d a @ split_char d c"
proof (induction a)
  case Nil
  then show ?case by simp
next
  case (Cons x a)
  obtain y ys where sp: "split_char d a = y # ys"
    using split_char_nonempty by (cases "split_char d a") auto
  show ?case using Cons sp by simp
qed

lemma split_char_Join:
  "es \<noteq> [] \<Longrightarrow> \<forall>e\<in>set es. d \<notin> set e \<Longrightarrow> split_char d (strings_Join es [d]) = es"
proof (induction es)
  case Nil
  then show ?case by simp
next
  case (Cons x es)
  show ?case
  proof (cases "es = []")
    case True
    then show ?thesis using Cons.prems by (simp add: split_char_none)
  next
    case False
    then have "strings_Join (x # es) [d] = x @ d # strings_Join es [d]"
      by (simp add: strings_Join_Cons)
    then show ?thesis using Cons False by (simp add: split_char_append)
  qed
qed

lemma Join_snoc:
  "xs \<noteq> [] \<Longrightarrow> strings_Join (xs @ [e]) sep = strings_Join xs sep @ sep @ e"
  by (induction xs sep rule: strings_Join.induct) auto

lemma hd_Join: "e \<noteq> [] \<Longrightarrow> hd (strings_Join (e # es) sep) = hd e"
  by (cases es) auto

lemma Join_nonempty: "e \<in> set es \<Longrightarrow> e \<noteq> [] \<Longrightarrow> strings_Join es sep \<noteq> []"
  by (induction es sep rule: strings_Join.induct) auto

lemma clean_push: "ordinary_elem e \<Longrightarrow> clean_elem r out e = e # out"
  by (simp add: clean_elem_def ordinary_elem_def)

lemma foldl_clean_ords:
  "list_all ordinary_elem es \<Longrightarrow> foldl (clean_elem r) acc es = rev es @ acc"
  by (induction es arbitrary: acc) (auto simp: clean_push)

lemma dotdots_wf: "\<not> r \<Longrightarrow> list_all (\<lambda>e. e = ''..'') xs \<Longrightarrow> wf_out r xs"
  by (induction xs) auto

lemma wf_tl: "wf_out r (x # xs) \<Longrightarrow> wf_out r xs"
  by (auto simp: dotdots_wf split: if_splits)

lemma wf_step: "wf_out r out \<Longrightarrow> CHR ''/'' \<notin> set e \<Longrightarrow> wf_out r (clean_elem r out e)"
proof -
  assume w: "wf_out r out" and ns: "CHR ''/'' \<notin> set e"
  consider "e = [] \<or> e = ''.''" | "e = ''..''" | "ordinary_elem e"
    using ns by (auto simp: ordinary_elem_def)
  then show ?thesis
  proof cases
    case 1
    then show ?thesis using w by (auto simp: clean_elem_def)
  next
    case 2
    show ?thesis
    proof (cases out)
      case Nil
      then show ?thesis using 2 by (simp add: clean_elem_def)
    next
      case (Cons x xs)
      show ?thesis
      proof (cases "x = ''..'' \<and> \<not> r")
        case True
        then have "clean_elem r out e = ''..'' # out" using 2 Cons by (simp add: clean_elem_def)
        then show ?thesis using w True Cons by simp
      next
        case False
        then have c: "clean_elem r out e = xs" using 2 Cons by (auto simp: clean_elem_def)
        from w Cons False have "x \<noteq> ''..''" by auto
        with w Cons have "wf_out r xs" by simp
        then show ?thesis using c by simp
      qed
    qed
  next
    case 3
    then show ?thesis using w by (auto simp: clean_push ordinary_elem_def)
  qed
qed

lemma wf_foldl:
  "wf_out r acc \<Longrightarrow> \<forall>e\<in>set es. CHR ''/'' \<notin> set e \<Longrightarrow> wf_out r (foldl (clean_elem r) acc es)"
  by (induction es arbitrary: acc) (auto simp: wf_step)

lemma wf_split: "wf_out r (foldl (clean_elem r) [] (split_char (CHR ''/'') p))"
  using wf_foldl[of r "[]" "split_char (CHR ''/'') p"] split_char_no_sep by fastforce

lemma wf_elems: "wf_out r out \<Longrightarrow> e \<in> set out \<Longrightarrow> e \<noteq> [] \<and> CHR ''/'' \<notin> set e"
proof (induction out)
  case Nil
  then show ?case by simp
next
  case (Cons x xs)
  show ?case
  proof (cases "x = ''..''")
    case True
    with Cons.prems have "list_all (\<lambda>e. e = ''..'') (x # xs)" by simp
    with Cons.prems(2) have "e = ''..''" by (auto simp: list_all_iff)
    then show ?thesis by simp
  next
    case False
    with Cons show ?thesis by (auto simp: ordinary_elem_def)
  qed
qed

lemma wf_rebuild: "wf_out r out \<Longrightarrow> foldl (clean_elem r) [] (rev out) = out"
proof (induction out)
  case Nil
  then show ?case by simp
next
  case (Cons x xs)
  from Cons.prems have "wf_out r xs" by (rule wf_tl)
  with Cons.IH have f: "foldl (clean_elem r) [] (rev (x # xs)) = clean_elem r xs x" by simp
  show ?case
  proof (cases "x = ''..''")
    case True
    with Cons.prems have nr: "\<not> r" and dd: "list_all (\<lambda>e. e = ''..'') xs" by simp_all
    show ?thesis
    proof (cases xs)
      case Nil
      then show ?thesis using f True nr by (simp add: clean_elem_def)
    next
      case (Cons y ys)
      with dd have "y = ''..''" by simp
      then have "clean_elem r xs x = x # xs" using True nr Cons by (simp add: clean_elem_def)
      then show ?thesis using f by simp
    qed
  next
    case False
    with Cons.prems have "ordinary_elem x" by simp
    then show ?thesis using f by (simp add: clean_push)
  qed
qed

lemma Clean_unfold:
  "p \<noteq> [] \<Longrightarrow> filepath_Clean p =
     (if render (hd p = CHR ''/'') (foldl (clean_elem (hd p = CHR ''/'')) [] (split_char (CHR ''/'') p)) = []
      then ''.''
      else render (hd p = CHR ''/'') (foldl (clean_elem (hd p = CHR ''/'')) [] (split_char (CHR ''/'') p)))"
  by (simp add: filepath_Clean_def render_def Let_def)

lemma render_push_nonempty: "e \<noteq> [] \<Longrightarrow> render r (e # out) \<noteq> []"
  using Join_nonempty[of e "rev (e # out)" "''/''"] by (simp add: render_def)

lemma split_char_push:
  "CHR ''/'' \<notin> set e \<Longrightarrow>
   split_char (CHR ''/'') (p @ CHR ''/'' # e) = split_char (CHR ''/'') p @ [e]"
  using split_char_app[of "CHR ''/''" p e] split_char_none[of "CHR ''/''" e] by simp

lemma Clean_push:
  assumes "p \<noteq> []" "ordinary_elem e"
  shows "filepath_Clean (p @ ''/'' @ e) =
         render (hd p = CHR ''/'') (e # foldl (clean_elem (hd p = CHR ''/'')) [] (split_char (CHR ''/'') p))"
proof -
  have ne: "e \<noteq> []" and ns: "CHR ''/'' \<notin> set e" using assms(2) by (auto simp: ordinary_elem_def)
  have h: "hd (p @ CHR ''/'' # e) = hd p" using assms(1) by simp
  have f: "foldl (clean_elem (hd p = CHR ''/'')) [] (split_char (CHR ''/'') (p @ CHR ''/'' # e)) =
           e # foldl (clean_elem (hd p = CHR ''/'')) [] (split_char (CHR ''/'') p)"
    by (simp add: split_char_push[OF ns] clean_push[OF assms(2)])
  have "p @ CHR ''/'' # e \<noteq> []" by simp
  from Clean_unfold[OF this] have "filepath_Clean (p @ CHR ''/'' # e) =
     render (hd p = CHR ''/'') (e # foldl (clean_elem (hd p = CHR ''/'')) [] (split_char (CHR ''/'') p))"
    unfolding h f using render_push_nonempty[OF ne] by simp
  then show ?thesis by simp
qed

lemma render_split:
  assumes "wf_out r out" "out \<noteq> []"
  shows "render r out \<noteq> []"
    and "(hd (render r out) = CHR ''/'') = r"
    and "foldl (clean_elem r) [] (split_char (CHR ''/'') (render r out)) = out"
proof -
  have el: "\<forall>e\<in>set (rev out). CHR ''/'' \<notin> set e" "\<forall>e\<in>set (rev out). e \<noteq> []"
    using wf_elems[OF assms(1)] by auto
  have rne: "rev out \<noteq> []" using assms(2) by simp
  then obtain e0 es where r0: "rev out = e0 # es" by (cases "rev out") auto
  with el have e0: "e0 \<noteq> []" "CHR ''/'' \<notin> set e0" by auto
  have j: "strings_Join (rev out) ''/'' \<noteq> []"
    using Join_nonempty[of e0 "rev out" "''/''"] r0 e0 by simp
  show "render r out \<noteq> []" using j by (simp add: render_def)
  have hj: "hd (strings_Join (rev out) ''/'') \<noteq> CHR ''/''"
    using hd_Join[OF e0(1), of es "''/''"] r0 e0 by (cases e0) auto
  show "(hd (render r out) = CHR ''/'') = r" using hj by (simp add: render_def)
  have sj: "split_char (CHR ''/'') (strings_Join (rev out) ''/'') = rev out"
    using split_char_Join[OF rne el(1)] by simp
  have "split_char (CHR ''/'') (render r out) = (if r then [] # rev out else rev out)"
    using sj by (simp add: render_def)
  then have "foldl (clean_elem r) [] (split_char (CHR ''/'') (render r out)) =
             foldl (clean_elem r) [] (rev out)"
    by (simp add: clean_elem_def)
  then show "foldl (clean_elem r) [] (split_char (CHR ''/'') (render r out)) = out"
    using wf_rebuild[OF assms(1)] by simp
qed

lemma Clean_Clean_push:
  assumes "p \<noteq> []" "ordinary_elem e1" "ordinary_elem e2"
  shows "filepath_Clean (filepath_Clean (p @ ''/'' @ e1) @ ''/'' @ e2) =
         filepath_Clean (p @ ''/'' @ e1 @ ''/'' @ e2)"
proof -
  let ?r = "hd p = CHR ''/''"
  let ?out = "foldl (clean_elem ?r) [] (split_char (CHR ''/'') p)"
  let ?c1 = "render ?r (e1 # ?out)"
  have c1: "filepath_Clean (p @ ''/'' @ e1) = ?c1" by (rule Clean_push[OF assms(1,2)])
  have w: "wf_out ?r (e1 # ?out)"
    using wf_split[of ?r p] assms(2) by (auto simp: ordinary_elem_def)
  note rs = render_split[OF w]
  have "filepath_Clean (?c1 @ ''/'' @ e2) =
        render (hd ?c1 = CHR ''/'') (e2 # foldl (clean_elem (hd ?c1 = CHR ''/'')) []
          (split_char (CHR ''/'') ?c1))"
    using Clean_push[OF _ assms(3), of ?c1] rs(1) by simp
  also have "\<dots> = render ?r (e2 # e1 # ?out)"
    using rs(2,3) by simp
  finally have l: "filepath_Clean (filepath_Clean (p @ ''/'' @ e1) @ ''/'' @ e2) =
                   render ?r (e2 # e1 # ?out)"
    using c1 by simp
  have pe: "p @ CHR ''/'' # e1 \<noteq> []" "hd (p @ CHR ''/'' # e1) = hd p" using assms(1) by simp_all
  have ns: "CHR ''/'' \<notin> set e1" using assms(2) by (simp add: ordinary_elem_def)
  have "filepath_Clean ((p @ CHR ''/'' # e1) @ ''/'' @ e2) = render ?r (e2 # e1 # ?out)"
    using Clean_push[OF pe(1) assms(3)] unfolding pe(2) split_char_push[OF ns]
    by (simp add: clean_push[OF assms(2)])
  with l show ?thesis by simp
qed

lemma Clean_nonempty: "filepath_Clean p \<noteq> []"
  by (simp add: filepath_Clean_def Let_def)

lemma digits_ordinary: "e \<noteq> [] \<Longrightarrow> list_all is_digit_char e \<Longrightarrow> ordinary_elem e"
proof -
  assume ne: "e \<noteq> []" and d: "list_all is_digit_char e"
  have "\<not> is_digit_char (CHR ''/'')" "\<not> is_digit_char (CHR ''.'')"
    by (simp_all add: is_digit_char_def)
  with d have "CHR ''/'' \<notin> set e" "CHR ''.'' \<notin> set e" by (auto simp: list_all_iff)
  then show ?thesis using ne by (auto simp: ordinary_elem_def)
qed

lemma file_ordinary: "length e = 2 \<Longrightarrow> list_all is_digit_char e \<Longrightarrow> ordinary_elem (e @ ''.md'')"
proof -
  assume l: "length e = 2" and d: "list_all is_digit_char e"
  have "\<not> is_digit_char (CHR ''/'')" by (simp add: is_digit_char_def)
  with d have "CHR ''/'' \<notin> set e" by (auto simp: list_all_iff)
  moreover have "length (e @ ''.md'') = 5" using l by simp
  ultimately show ?thesis by (auto simp: ordinary_elem_def)
qed

lemma Clean_ordinary: "ordinary_path p \<Longrightarrow> filepath_Clean p = p"
proof -
  assume o: "ordinary_path p"
  obtain e rest where sp: "split_char (CHR ''/'') p = e # rest"
    using split_char_nonempty by (cases "split_char (CHR ''/'') p") auto
  have pj: "p = strings_Join (e # rest) ''/''"
    using Join_split_char[of "CHR ''/''" p] sp by simp
  show ?thesis
  proof (cases "e = []")
    case True
    with o sp have rest: "rest \<noteq> []" "list_all ordinary_elem rest" by (simp_all add: ordinary_path_def)
    have p: "p = ''/'' @ strings_Join rest ''/''"
      using pj True rest(1) by (simp add: strings_Join_Cons)
    then have pne: "p \<noteq> []" and h: "hd p = CHR ''/''" by simp_all
    have f: "foldl (clean_elem True) [] (split_char (CHR ''/'') p) = rev rest"
      using foldl_clean_ords[OF rest(2), of True "[]"] by (simp add: sp True clean_elem_def)
    have "render True (rev rest) = p" using p by (simp add: render_def)
    then show ?thesis using Clean_unfold[OF pne] pne by (simp add: h f)
  next
    case False
    with o sp have all: "list_all ordinary_elem (e # rest)" by (simp add: ordinary_path_def)
    then have e: "CHR ''/'' \<notin> set e" by (simp add: ordinary_elem_def)
    have pne: "p \<noteq> []" using pj False Join_nonempty[of e "e # rest" "''/''"] by simp
    have "hd p = hd e" using pj hd_Join[OF False] by simp
    then have h: "hd p \<noteq> CHR ''/''" using e False by (cases e) auto
    have f: "foldl (clean_elem False) [] (split_char (CHR ''/'') p) = rev (e # rest)"
      using foldl_clean_ords[OF all, of False "[]"] by (simp add: sp)
    have "render False (rev (e # rest)) = p" using pj by (simp add: render_def)
    then show ?thesis using Clean_unfold[OF pne] pne h f by simp
  qed
qed

lemma ordinary_path_elem: "ordinary_elem e \<Longrightarrow> ordinary_path e"
  by (simp add: ordinary_path_def split_char_none ordinary_elem_def)

lemma ordinary_path_push:
  "ordinary_path p \<Longrightarrow> ordinary_elem e \<Longrightarrow> ordinary_path (p @ ''/'' @ e)"
proof -
  assume o: "ordinary_path p" and e: "ordinary_elem e"
  then have ns: "CHR ''/'' \<notin> set e" by (simp add: ordinary_elem_def)
  obtain x rest where sp: "split_char (CHR ''/'') p = x # rest"
    using split_char_nonempty by (cases "split_char (CHR ''/'') p") auto
  have "split_char (CHR ''/'') (p @ CHR ''/'' # e) = x # rest @ [e]"
    using split_char_push[OF ns, of p] sp by simp
  then have "ordinary_path (p @ CHR ''/'' # e)"
    using o e sp by (auto simp: ordinary_path_def)
  then show ?thesis by simp
qed

lemma buildMarkdownPath_Clean:
  assumes "strict_date (Date n)"
  shows "buildMarkdownPath n base =
     Inr (filepath_Clean ((if base = [] then [] else base @ ''/'') @
            take 4 (Date n) @ ''/'' @ take 2 (drop 5 (Date n)) @ ''/'' @ drop 8 (Date n) @ ''.md''))"
proof -
  let ?Y = "take 4 (Date n)" and ?M = "take 2 (drop 5 (Date n))" and ?F = "drop 8 (Date n) @ ''.md''"
  note p = strict_date_parts[OF assms]
  have oy: "ordinary_elem ?Y" using digits_ordinary[of ?Y] p(2,3) by force
  have om: "ordinary_elem ?M" using digits_ordinary[of ?M] p(4,5) by force
  have "ordinary_elem ?F" using file_ordinary[OF p(7) p(6)] .
  note ofl = this
  have yne: "?Y \<noteq> []" using oy by (simp add: ordinary_elem_def)
  show ?thesis
  proof (cases "base = []")
    case True
    have "filepath_Join [filepath_Join [base, ?Y @ ''/'' @ ?M], ?F] =
          filepath_Clean (filepath_Clean (?Y @ ''/'' @ ?M) @ ''/'' @ ?F)"
      using True yne Clean_nonempty[of "?Y @ ''/'' @ ?M"] by simp
    also have "\<dots> = filepath_Clean (?Y @ ''/'' @ ?M @ ''/'' @ ?F)"
      by (rule Clean_Clean_push[OF yne om ofl])
    finally show ?thesis using True by (simp add: buildMarkdownPath_parts[OF assms])
  next
    case False
    then have bne: "base @ ''/'' @ ?Y \<noteq> []" by simp
    have "filepath_Join [filepath_Join [base, ?Y @ ''/'' @ ?M], ?F] =
          filepath_Clean (filepath_Clean ((base @ ''/'' @ ?Y) @ ''/'' @ ?M) @ ''/'' @ ?F)"
      using False Clean_nonempty[of "base @ ''/'' @ ?Y @ ''/'' @ ?M"] by simp
    also have "\<dots> = filepath_Clean ((base @ ''/'' @ ?Y) @ ''/'' @ ?M @ ''/'' @ ?F)"
      by (rule Clean_Clean_push[OF bne om ofl])
    finally show ?thesis using False by (simp add: buildMarkdownPath_parts[OF assms])
  qed
qed

lemma buildMarkdownPath_ordinary:
  assumes "strict_date (Date n)" "ordinary_path base"
  shows "buildMarkdownPath n base =
     Inr (base @ ''/'' @ take 4 (Date n) @ ''/'' @ take 2 (drop 5 (Date n)) @ ''/'' @
          drop 8 (Date n) @ ''.md'')"
proof -
  let ?Y = "take 4 (Date n)" and ?M = "take 2 (drop 5 (Date n))" and ?F = "drop 8 (Date n) @ ''.md''"
  note p = strict_date_parts[OF assms(1)]
  have oy: "ordinary_elem ?Y" using digits_ordinary[of ?Y] p(2,3) by force
  have om: "ordinary_elem ?M" using digits_ordinary[of ?M] p(4,5) by force
  have ofl: "ordinary_elem ?F" using file_ordinary[OF p(7) p(6)] .
  have bne: "base \<noteq> []" using assms(2) by (auto simp: ordinary_path_def)
  have "ordinary_path (((base @ ''/'' @ ?Y) @ ''/'' @ ?M) @ ''/'' @ ?F)"
    by (intro ordinary_path_push assms(2) oy om ofl)
  from Clean_ordinary[OF this] show ?thesis
    using buildMarkdownPath_Clean[OF assms(1), of base] bne by simp
qed

lemma buildMarkdownPath_empty_base:
  assumes "strict_date (Date n)"
  shows "buildMarkdownPath n [] =
     Inr (take 4 (Date n) @ ''/'' @ take 2 (drop 5 (Date n)) @ ''/'' @ drop 8 (Date n) @ ''.md'')"
proof -
  let ?Y = "take 4 (Date n)" and ?M = "take 2 (drop 5 (Date n))" and ?F = "drop 8 (Date n) @ ''.md''"
  note p = strict_date_parts[OF assms(1)]
  have oy: "ordinary_elem ?Y" using digits_ordinary[of ?Y] p(2,3) by force
  have om: "ordinary_elem ?M" using digits_ordinary[of ?M] p(4,5) by force
  have ofl: "ordinary_elem ?F" using file_ordinary[OF p(7) p(6)] .
  have "ordinary_path ((?Y @ ''/'' @ ?M) @ ''/'' @ ?F)"
    by (intro ordinary_path_push ordinary_path_elem oy om ofl)
  from Clean_ordinary[OF this] show ?thesis
    using buildMarkdownPath_Clean[OF assms(1), of "[]"] by simp
qed

lemma valid_strict: "validateNote n = None \<Longrightarrow> strict_date (Date n)"
  using time_Parse_iff[of "Date n"]
  by (auto simp: validateNote_def split: if_splits sum.splits)

text \<open>
  C6 as claimed fails: for the base directory \<^verbatim>\<open>./notes\<close> the path is
  \<^verbatim>\<open>notes/2024/09/12.md\<close> (as \<^verbatim>\<open>TestBuildMarkdownPath\<close> expects), not the base
  followed by \<^verbatim>\<open>/2024/09/12.md\<close>.
\<close>

theorem literal_path_counterexample:
  "buildMarkdownPath \<lparr>Title = ''T'', Date = ''2024-09-12'', Tags = [], Content = []\<rparr> ''./notes'' =
     Inr ''notes/2024/09/12.md'' \<and>
   ''notes/2024/09/12.md'' \<noteq> ''./notes'' @ ''/'' @ ''2024'' @ ''/'' @ ''09'' @ ''/'' @ ''12'' @ ''.md'' \<and>
   validateNote \<lparr>Title = ''T'', Date = ''2024-09-12'', Tags = [], Content = []\<rparr> = None"
  by code_simp

text \<open>
  C6, as the code has it. For a note that passed validation, with date
  \<^verbatim>\<open>YYYY-MM-DD\<close>, and any base directory, the path is \<^verbatim>\<open>base/YYYY/MM/DD.md\<close>
  cleaned by \<^verbatim>\<open>filepath.Clean\<close> (and \<^verbatim>\<open>YYYY/MM/DD.md\<close> cleaned for the empty base).
  It is exactly \<^verbatim>\<open>base/YYYY/MM/DD.md\<close> when the base is an ordinary path, and
  \<^verbatim>\<open>YYYY/MM/DD.md\<close> when the base is empty. \<^verbatim>\<open>YYYY\<close>, \<^verbatim>\<open>MM\<close> and \<^verbatim>\<open>DD\<close> are the
  digits of the date. The path is a function of the date and the base alone.
\<close>

theorem archive_path:
  assumes "validateNote n = None"
  shows "buildMarkdownPath n base =
           Inr (filepath_Clean ((if base = [] then [] else base @ ''/'') @
                  take 4 (Date n) @ ''/'' @ take 2 (drop 5 (Date n)) @ ''/'' @
                  drop 8 (Date n) @ ''.md'')) \<and>
         (ordinary_path base \<longrightarrow>
            buildMarkdownPath n base =
              Inr (base @ ''/'' @ take 4 (Date n) @ ''/'' @ take 2 (drop 5 (Date n)) @ ''/'' @
                   drop 8 (Date n) @ ''.md'')) \<and>
         (base = [] \<longrightarrow>
            buildMarkdownPath n base =
              Inr (take 4 (Date n) @ ''/'' @ take 2 (drop 5 (Date n)) @ ''/'' @
                   drop 8 (Date n) @ ''.md'')) \<and>
         list_all is_digit_char (take 4 (Date n) @ take 2 (drop 5 (Date n)) @ drop 8 (Date n)) \<and>
         Date n = take 4 (Date n) @ ''-'' @ take 2 (drop 5 (Date n)) @ ''-'' @ drop 8 (Date n)"
proof -
  note s = valid_strict[OF assms]
  note p = strict_date_parts[OF s]
  from length_ten[OF strict_date_length[OF s]] obtain a b c d e f g h i j where
    d: "Date n = [a, b, c, d, e, f, g, h, i, j]" by blast
  have dd: "Date n = take 4 (Date n) @ ''-'' @ take 2 (drop 5 (Date n)) @ ''-'' @ drop 8 (Date n)"
    using s unfolding d by (simp add: strict_date_def)
  show ?thesis
    using buildMarkdownPath_Clean[OF s, of base] buildMarkdownPath_ordinary[OF s, of base]
      buildMarkdownPath_empty_base[OF s] p(2,4,6) dd
    by simp
qed

theorem archive_path_witness:
  "validateNote \<lparr>Title = ''T'', Date = ''2024-09-12'', Tags = [], Content = []\<rparr> = None \<and>
   ordinary_path ''/archive'' \<and>
   buildMarkdownPath \<lparr>Title = ''T'', Date = ''2024-09-12'', Tags = [], Content = []\<rparr> ''/archive'' =
     Inr ''/archive/2024/09/12.md''"
proof -
  have v: "validateNote \<lparr>Title = ''T'', Date = ''2024-09-12'', Tags = [], Content = []\<rparr> = None"
    by code_simp
  have o: "ordinary_path ''/archive''" by code_simp
  from archive_path[OF v, of "''/archive''"] o
  have "buildMarkdownPath \<lparr>Title = ''T'', Date = ''2024-09-12'', Tags = [], Content = []\<rparr>
          ''/archive'' =
        Inr (''/archive'' @ ''/'' @
             take 4 (Date \<lparr>Title = ''T'', Date = ''2024-09-12'', Tags = [], Content = []\<rparr>) @ ''/'' @
             take 2 (drop 5 (Date \<lparr>Title = ''T'', Date = ''2024-09-12'', Tags = [], Content = []\<rparr>)) @
             ''/'' @ drop 8 (Date \<lparr>Title = ''T'', Date = ''2024-09-12'', Tags = [], Content = []\<rparr>) @
             ''.md'')"
    by blast
  then show ?thesis using v o by simp
qed

subsection \<open>Serializing and parsing again\<close>


text \<open>
  The replacement of the date line is a template of the regular expression: a dollar
  sign in the date is expanded, so the date \<^verbatim>\<open>a$b\<close> is written as \<^verbatim>\<open>a\<close>.
\<close>

lemma dollar_date_example:
  "yaml_Unmarshal ''\<newline>title: T\<newline>date: a$b\<newline>'' Note_zero =
     Inr \<lparr>Title = ''T'', Date = ''a$b'', Tags = [], Content = []\<rparr> \<and>
   formatNoteContent (yaml_Marshal yaml_scalar)
     \<lparr>Title = ''T'', Date = ''a$b'', Tags = [], Content = []\<rparr> =
     Inr ''---\<newline>title: T\<newline>date: a\<newline>tags: []\<newline>---\<newline>\<newline>\<newline>'' \<and>
   parseNotes yaml_Unmarshal ''---\<newline>title: T\<newline>date: a\<newline>tags: []\<newline>---\<newline>\<newline>\<newline>'' =
     Inr [\<lparr>Title = ''T'', Date = ''a'', Tags = [], Content = []\<rparr>] \<and>
   ''a'' \<noteq> ''a$b''"
  by code_simp









lemma space_width_le: "space_width s \<le> 3"
  by (cases s rule: space_width.cases) simp_all










end
